theory Spec2Isabelle
  imports Main "HOL-Library.AList" "HOL-Library.Char_ord" "HOL-Library.List_Lexorder"
begin

section \<open>Shell and Python primitives\<close>

text \<open>
  The scripts of the repository are Bash; two of them embed Python programs that run as
  Kubernetes jobs. Text is \<^typ>\<open>string\<close>; the colour escapes of \<^verbatim>\<open>echo -e\<close> are
  left out of the messages. Every external program (\<^verbatim>\<open>kubectl\<close>, \<^verbatim>\<open>aws\<close>, \<^verbatim>\<open>helm\<close>,
  the database, the object store) is a fake: a value of the model that answers the calls.
\<close>

text \<open>Bash \<^verbatim>\<open>[ -n "$X" ]\<close> and \<^verbatim>\<open>[ -z "$X" ]\<close>.\<close>

definition test_n :: "string \<Rightarrow> bool" where
  "test_n s = (s \<noteq> [])"

definition test_z :: "string \<Rightarrow> bool" where
  "test_z s = (s = [])"

text \<open>
  \<^verbatim>\<open>read\<close> with the default \<^verbatim>\<open>IFS\<close> and one variable name removes the blanks (spaces and
  tabs) at the start and at the end of the line before it assigns.
\<close>

definition is_blank :: "char \<Rightarrow> bool" where
  "is_blank c = (c = CHR '' '' \<or> c = CHR 0x09)"

definition strip_blanks :: "string \<Rightarrow> string" where
  "strip_blanks l = rev (dropWhile is_blank (rev (dropWhile is_blank l)))"

text \<open>Decimal digits of a number, as \<^verbatim>\<open>$ELAPSED\<close> or an f-string prints it.\<close>

definition digit :: "nat \<Rightarrow> char" where
  "digit d = ''0123456789'' ! d"

fun dec :: "nat \<Rightarrow> string" where
  "dec n = (if n < 10 then [digit n] else dec (n div 10) @ [digit (n mod 10)])"

declare dec.simps [simp del]

text \<open>Python \<^verbatim>\<open>sub in s\<close> on strings, \<^verbatim>\<open>s.endswith(suf)\<close> and \<^verbatim>\<open>s.split(c)\<close>.\<close>

definition startswith :: "string \<Rightarrow> string \<Rightarrow> bool" where
  "startswith s p = (take (length p) s = p)"

definition endswith :: "string \<Rightarrow> string \<Rightarrow> bool" where
  "endswith s suf = (length suf \<le> length s \<and> drop (length s - length suf) s = suf)"

fun py_in :: "string \<Rightarrow> string \<Rightarrow> bool" where
  "py_in sub [] = (sub = [])"
| "py_in sub (c # cs) = (startswith (c # cs) sub \<or> py_in sub cs)"

fun py_split :: "char \<Rightarrow> string \<Rightarrow> string list" where
  "py_split c [] = [[]]"
| "py_split c (x # xs) =
     (if x = c then [] # py_split c xs
      else (case py_split c xs of [] \<Rightarrow> [[x]] | w # ws \<Rightarrow> (x # w) # ws))"

text \<open>\<^verbatim>\<open>str\<close> of a list of strings, as an f-string prints it.\<close>

fun commas :: "string list \<Rightarrow> string" where
  "commas [] = []"
| "commas [x] = x"
| "commas (x # y # ys) = x @ '', '' @ commas (y # ys)"

definition py_list_str :: "string list \<Rightarrow> string" where
  "py_list_str xs = ''['' @ commas (map (\<lambda>x. [CHR 0x27] @ x @ [CHR 0x27]) xs) @ '']''"

section \<open>The endpoint wait loop (wait-for-milvus-endpoint.sh)\<close>

text \<open>
  \<^verbatim>\<open>wait_for_lb\<close> polls \<^verbatim>\<open>kubectl get svc milvus ... hostname\<close> until the answer is
  neither empty nor \<^verbatim>\<open><pending>\<close>. The fake cluster is the function \<open>kubectl_get_svc\<close>:
  its value at \<open>i\<close> is what the \<open>i\<close>-th poll prints (empty when the call fails; the
  script has no \<^verbatim>\<open>set -e\<close>). The state of the loop is the shell variable \<^verbatim>\<open>ELAPSED\<close>,
  the number of polls made, the seconds slept and the lines printed.
\<close>

record lb_state =
  ELAPSED :: nat
  polls :: nat
  slept :: nat
  lb_out :: "string list"

definition lb_sleep :: "nat \<Rightarrow> lb_state \<Rightarrow> lb_state" where
  "lb_sleep n s = s\<lparr>slept := slept s + n\<rparr>"

definition lb_echo :: "string \<Rightarrow> lb_state \<Rightarrow> lb_state" where
  "lb_echo msg s = s\<lparr>lb_out := lb_out s @ [msg]\<rparr>"

function wait_loop :: "(nat \<Rightarrow> string) \<Rightarrow> nat \<Rightarrow> lb_state \<Rightarrow> nat \<times> lb_state" where
  "wait_loop kubectl_get_svc MAX_WAIT s =
     (if ELAPSED s < MAX_WAIT then
        (let EXTERNAL_IP = kubectl_get_svc (polls s);
             s1 = s\<lparr>polls := polls s + 1\<rparr>
         in if test_n EXTERNAL_IP \<and> EXTERNAL_IP \<noteq> ''<pending>''
            then (0, lb_echo (''LoadBalancer is ready with endpoint: '' @ EXTERNAL_IP) s1)
            else wait_loop kubectl_get_svc MAX_WAIT
                   ((lb_sleep 15
                      (lb_echo (''LoadBalancer still provisioning... ('' @ dec (ELAPSED s1) @ ''s elapsed)'') s1))
                    \<lparr>ELAPSED := ELAPSED s1 + 15\<rparr>))
      else (1, lb_echo (''Timed out waiting for LoadBalancer ('' @ dec MAX_WAIT @ ''s)'') s))"
  by pat_completeness auto
termination
  by (relation "measure (\<lambda>(k, m, s). m - ELAPSED s)")
     (auto simp: lb_sleep_def lb_echo_def)

declare wait_loop.simps [simp del]

definition lb_init :: lb_state where
  "lb_init = \<lparr>ELAPSED = 0, polls = 0, slept = 0, lb_out = [''Waiting for Milvus LoadBalancer to be provisioned...'']\<rparr>"

definition wait_for_lb :: "(nat \<Rightarrow> string) \<Rightarrow> nat \<times> lb_state" where
  "wait_for_lb kubectl_get_svc = wait_loop kubectl_get_svc 600 lb_init"

definition never_ready :: "(nat \<Rightarrow> string) \<Rightarrow> bool" where
  "never_ready k = (\<forall>i. k i = [] \<or> k i = ''<pending>'')"

section \<open>The database and the object store seen by the backup and restore jobs\<close>

text \<open>
  \<^verbatim>\<open>upgrade-milvus-to-cluster.sh\<close> writes two Kubernetes job manifests whose container runs
  \<^verbatim>\<open>python -c '...'\<close>. The Python programs talk to Milvus (pymilvus) and to S3 (boto3); both
  are fakes here. The field types are those of the pymilvus enumeration; \<open>dtype_str\<close> is
  \<^verbatim>\<open>str(field.dtype)\<close>, the member's qualified name, which is the form of the keys of
  \<^verbatim>\<open>dtype_map\<close>.
\<close>

datatype DataType =
  BOOL | INT8 | INT16 | INT32 | INT64 | FLOAT | DOUBLE | VARCHAR | JSON
  | BINARY_VECTOR | FLOAT_VECTOR

fun dtype_str :: "DataType \<Rightarrow> string" where
  "dtype_str BOOL = ''DataType.BOOL''"
| "dtype_str INT8 = ''DataType.INT8''"
| "dtype_str INT16 = ''DataType.INT16''"
| "dtype_str INT32 = ''DataType.INT32''"
| "dtype_str INT64 = ''DataType.INT64''"
| "dtype_str FLOAT = ''DataType.FLOAT''"
| "dtype_str DOUBLE = ''DataType.DOUBLE''"
| "dtype_str VARCHAR = ''DataType.VARCHAR''"
| "dtype_str JSON = ''DataType.JSON''"
| "dtype_str BINARY_VECTOR = ''DataType.BINARY_VECTOR''"
| "dtype_str FLOAT_VECTOR = ''DataType.FLOAT_VECTOR''"

text \<open>A field of a collection schema in the database, with its type parameters (\<^verbatim>\<open>dim\<close>, ...).\<close>

record FieldSchema =
  fs_name :: string
  fs_dtype :: DataType
  fs_is_primary :: bool
  fs_description :: string
  fs_auto_id :: bool
  fs_params :: "(string \<times> int) list"

record CollectionSchema =
  cs_description :: string
  cs_fields :: "FieldSchema list"

text \<open>An index as the backup records it: \<^verbatim>\<open>field_name\<close>, \<^verbatim>\<open>index_type\<close>, \<^verbatim>\<open>params\<close>.\<close>

record index_info =
  ix_field_name :: string
  ix_index_type :: string
  ix_params :: "(string \<times> string) list"

record collection =
  col_schema :: CollectionSchema
  col_indexes :: "index_info list"

text \<open>
  The JSON documents of the backup. A key that the restore reads with \<^verbatim>\<open>.get(key, default)\<close>
  or guards with \<^verbatim>\<open>"params" in field\<close> may be absent: it is an option.
\<close>

record field_dict =
  fd_name :: string
  fd_description :: "string option"
  fd_type :: string
  fd_is_primary :: "bool option"
  fd_auto_id :: "bool option"
  fd_params :: "(string \<times> int) list option"

record schema_dict =
  sd_name :: string
  sd_description :: "string option"
  sd_fields :: "field_dict list"

datatype s3_object = SchemaDoc schema_dict | IndexDoc "index_info list"

text \<open>
  The fake cluster: the collections of the database by name, the backup bucket (it may not
  exist) with its objects by key, and the lines the job has printed.
\<close>

record cluster =
  milvus :: "(string \<times> collection) list"
  s3_exists :: bool
  s3_objects :: "(string \<times> s3_object) list"
  logs :: "string list"

datatype py_exn =
  KeyError string | TypeError | NoSuchBucket | NoSuchKey
  | SchemaNotReadyException | MilvusException string

fun exn_str :: "py_exn \<Rightarrow> string" where
  "exn_str (KeyError k) = k"
| "exn_str TypeError = ''TypeError''"
| "exn_str NoSuchBucket = ''NoSuchBucket''"
| "exn_str NoSuchKey = ''NoSuchKey''"
| "exn_str SchemaNotReadyException = ''SchemaNotReadyException''"
| "exn_str (MilvusException m) = m"

text \<open>
  How a piece of Python ends: normally, by an exception, or by \<^verbatim>\<open>exit(n)\<close>
  (\<^verbatim>\<open>SystemExit\<close>, which \<^verbatim>\<open>except Exception\<close> does not catch). Each carries the state reached.
\<close>

datatype 'a py = Ok 'a | Raise py_exn 'a | SysExit nat 'a

definition then_py :: "'a py \<Rightarrow> ('a \<Rightarrow> 'a py) \<Rightarrow> 'a py" where
  "then_py r f = (case r of Ok s \<Rightarrow> f s | Raise e s \<Rightarrow> Raise e s | SysExit n s \<Rightarrow> SysExit n s)"

fun for_each :: "('x \<Rightarrow> 'a \<Rightarrow> 'a py) \<Rightarrow> 'x list \<Rightarrow> 'a \<Rightarrow> 'a py" where
  "for_each body [] s = Ok s"
| "for_each body (x # xs) s = then_py (body x s) (for_each body xs)"

definition py_print :: "string \<Rightarrow> cluster \<Rightarrow> cluster" where
  "py_print msg cl = cl\<lparr>logs := logs cl @ [msg]\<rparr>"

subsection \<open>The fake Milvus\<close>

definition list_collections :: "cluster \<Rightarrow> string list" where
  "list_collections cl = map fst (milvus cl)"

definition has_collection :: "string \<Rightarrow> cluster \<Rightarrow> bool" where
  "has_collection n cl = (map_of (milvus cl) n \<noteq> None)"

definition drop_collection :: "string \<Rightarrow> cluster \<Rightarrow> cluster" where
  "drop_collection n cl = cl\<lparr>milvus := filter (\<lambda>p. fst p \<noteq> n) (milvus cl)\<rparr>"

text \<open>
  \<^verbatim>\<open>Collection(name=..., schema=...)\<close>: creates the collection when the name is free; when
  it is taken, pymilvus compares the schemas and raises if they differ.
\<close>

definition Collection :: "string \<Rightarrow> CollectionSchema \<Rightarrow> cluster \<Rightarrow> cluster py" where
  "Collection n schema cl =
     (case map_of (milvus cl) n of
        None \<Rightarrow> Ok (cl\<lparr>milvus := milvus cl @ [(n, \<lparr>col_schema = schema, col_indexes = []\<rparr>)]\<rparr>)
      | Some c \<Rightarrow> if col_schema c = schema then Ok cl else Raise SchemaNotReadyException cl)"

text \<open>\<^verbatim>\<open>collection.create_index\<close>: the field must be one of the collection.\<close>

definition create_index :: "string \<Rightarrow> index_info \<Rightarrow> cluster \<Rightarrow> cluster py" where
  "create_index n ix cl =
     (case map_of (milvus cl) n of
        None \<Rightarrow> Raise (MilvusException ''collection not found'') cl
      | Some c \<Rightarrow>
          if ix_field_name ix \<in> set (map fs_name (cs_fields (col_schema c)))
          then Ok (cl\<lparr>milvus := AList.update n (c\<lparr>col_indexes := col_indexes c @ [ix]\<rparr>) (milvus cl)\<rparr>)
          else Raise (MilvusException ''field not found'') cl)"

text \<open>\<^verbatim>\<open>collection.has_index(field.name)\<close> and \<^verbatim>\<open>collection.index(field.name)\<close>.\<close>

definition field_index :: "collection \<Rightarrow> string \<Rightarrow> index_info option" where
  "field_index c f = find (\<lambda>ix. ix_field_name ix = f) (col_indexes c)"

subsection \<open>The fake S3\<close>

definition upload_file :: "string \<Rightarrow> s3_object \<Rightarrow> cluster \<Rightarrow> cluster py" where
  "upload_file key obj cl =
     (if s3_exists cl then Ok (cl\<lparr>s3_objects := AList.update key obj (s3_objects cl)\<rparr>)
      else Raise NoSuchBucket cl)"

text \<open>
  \<^verbatim>\<open>list_objects_v2(Bucket, Prefix)\<close>: the keys with the prefix in the order S3 lists
  them, ascending by their bytes (the order of \<^typ>\<open>string\<close>: characters by code, a proper
  prefix first); one page, at most 1000 keys; the response has no \<^verbatim>\<open>Contents\<close> when no
  key matches (the empty list here).
\<close>

definition list_objects_v2 :: "string \<Rightarrow> cluster \<Rightarrow> string list option" where
  "list_objects_v2 Prefix cl =
     (if s3_exists cl
      then Some (take 1000 (sort (filter (\<lambda>k. startswith k Prefix) (map fst (s3_objects cl)))))
      else None)"

definition download_file :: "string \<Rightarrow> cluster \<Rightarrow> s3_object option" where
  "download_file key cl = map_of (s3_objects cl) key"

subsection \<open>Connecting with retries (both jobs)\<close>

text \<open>
  \<^verbatim>\<open>for i in range(max_retries)\<close> around \<^verbatim>\<open>connections.connect\<close>; \<open>ok i\<close> says whether
  attempt \<open>i\<close> succeeds. The last failed attempt calls \<^verbatim>\<open>exit(1)\<close>.
\<close>

function connect_from :: "(nat \<Rightarrow> bool) \<Rightarrow> nat \<Rightarrow> nat \<Rightarrow> nat \<Rightarrow> cluster \<Rightarrow> cluster py" where
  "connect_from ok max_retries retry_interval i cl =
     (if i < max_retries then
        (if ok i then Ok (py_print ''Connected to Milvus'' cl)
         else
           (let cl1 = py_print (''Connection attempt '' @ dec (i + 1) @ ''/'' @ dec max_retries
                                 @ '' failed: connection refused'') cl
            in if i < max_retries - 1
               then connect_from ok max_retries retry_interval (i + 1)
                      (py_print (''Retrying in '' @ dec retry_interval @ '' seconds...'') cl1)
               else SysExit 1 (py_print ''Failed to connect to Milvus after multiple attempts'' cl1)))
      else Ok cl)"
  by pat_completeness auto
termination
  by (relation "measure (\<lambda>(ok, m, r, i, cl). m - i)") auto

declare connect_from.simps [simp del]

definition connect_retry :: "(nat \<Rightarrow> bool) \<Rightarrow> cluster \<Rightarrow> cluster py" where
  "connect_retry ok cl = connect_from ok 10 5 0 cl"

section \<open>The backup job (create\_backup, Python part)\<close>

definition field_to_dict :: "FieldSchema \<Rightarrow> field_dict" where
  "field_to_dict field =
     \<lparr>fd_name = fs_name field,
      fd_description = Some (fs_description field),
      fd_type = dtype_str (fs_dtype field),
      fd_is_primary = Some (fs_is_primary field),
      fd_auto_id = Some (fs_auto_id field),
      fd_params = Some (fs_params field)\<rparr>"

definition schema_key :: "string \<Rightarrow> string \<Rightarrow> string" where
  "schema_key TIMESTAMP collection_name =
     ''backup-'' @ TIMESTAMP @ ''/'' @ collection_name @ ''/schema.json''"

definition indexes_key :: "string \<Rightarrow> string \<Rightarrow> string" where
  "indexes_key TIMESTAMP collection_name =
     ''backup-'' @ TIMESTAMP @ ''/'' @ collection_name @ ''/indexes.json''"

definition collect_indexes :: "collection \<Rightarrow> index_info list" where
  "collect_indexes c =
     concat (map (\<lambda>field. case field_index c (fs_name field) of
                             None \<Rightarrow> []
                           | Some index_info \<Rightarrow>
                               [\<lparr>ix_field_name = fs_name field,
                                 ix_index_type = ix_index_type index_info,
                                 ix_params = ix_params index_info\<rparr>])
                 (cs_fields (col_schema c)))"

text \<open>The body of the \<^verbatim>\<open>try\<close> for one collection.\<close>

definition backup_collection :: "string \<Rightarrow> string \<Rightarrow> cluster \<Rightarrow> cluster py" where
  "backup_collection TIMESTAMP collection_name cl =
     (case map_of (milvus cl) collection_name of
        None \<Rightarrow> Raise (MilvusException ''collection not found'') cl
      | Some c \<Rightarrow>
         (let schema = col_schema c;
              schema_dict = \<lparr>sd_name = collection_name,
                             sd_description = Some (cs_description schema),
                             sd_fields = map field_to_dict (cs_fields schema)\<rparr>
          in then_py (upload_file (schema_key TIMESTAMP collection_name) (SchemaDoc schema_dict) cl)
               (\<lambda>cl1.
                  (let cl2 = py_print (''Uploaded schema for '' @ collection_name) cl1;
                       indexes = collect_indexes c
                   in if indexes \<noteq> []
                      then then_py (upload_file (indexes_key TIMESTAMP collection_name) (IndexDoc indexes) cl2)
                             (\<lambda>cl3. Ok (py_print (''Uploaded index information for '' @ collection_name) cl3))
                      else Ok cl2))))"

text \<open>One round of the loop: the \<^verbatim>\<open>except Exception\<close> of the backup is inside the loop.\<close>

definition backup_step :: "string \<Rightarrow> string \<Rightarrow> cluster \<Rightarrow> cluster py" where
  "backup_step TIMESTAMP collection_name cl =
     (case backup_collection TIMESTAMP collection_name
             (py_print (''Backing up collection: '' @ collection_name) cl) of
        Raise e cl1 \<Rightarrow>
          Ok (py_print (''Error backing up '' @ collection_name @ '': '' @ exn_str e) cl1)
      | r \<Rightarrow> r)"

text \<open>The whole program; the result is the exit code of the interpreter and the state.\<close>

definition backup_py :: "string \<Rightarrow> (nat \<Rightarrow> bool) \<Rightarrow> cluster \<Rightarrow> nat \<times> cluster" where
  "backup_py TIMESTAMP ok cl =
     (case connect_retry ok cl of
        SysExit n cl1 \<Rightarrow> (n, cl1)
      | Raise e cl1 \<Rightarrow> (1, cl1)
      | Ok cl1 \<Rightarrow>
         (let collections = list_collections cl1;
              cl2 = py_print (''Collections to backup: '' @ py_list_str collections) cl1
          in case for_each (backup_step TIMESTAMP) collections cl2 of
               Ok cl3 \<Rightarrow> (0, py_print (''Backup completed at: backup-'' @ TIMESTAMP @ ''/'') cl3)
             | SysExit n cl3 \<Rightarrow> (n, cl3)
             | Raise e cl3 \<Rightarrow> (1, cl3)))"

section \<open>The restore job (restore\_data, Python part)\<close>

text \<open>
  The manifest is a here-document and the Python program is the single-quoted argument of
  \<^verbatim>\<open>python -c\<close> in the container's \<^verbatim>\<open>bash -c\<close> script. The program as the interpreter
  receives it is modelled. In the line that reports an unknown type,
  \<^verbatim>\<open>print(f"Unknown data type: {field['type']}")\<close>, the two single quotes close and reopen
  the shell's quoting, so the interpreter receives \<^verbatim>\<open>{field[type]}\<close>: the key is the
  builtin \<^verbatim>\<open>type\<close>, the dictionary has no such key, and evaluating the argument raises
  \<^verbatim>\<open>KeyError\<close> before anything is printed. No other line of either program has a single
  quote.
\<close>

text \<open>\<^verbatim>\<open>collection_paths\<close>: a dictionary in insertion order, from the listed keys.\<close>

definition add_path :: "string \<Rightarrow> string \<Rightarrow> (string \<times> string list) list \<Rightarrow> (string \<times> string list) list" where
  "add_path collection_name key d =
     (case map_of d collection_name of
        None \<Rightarrow> d @ [(collection_name, [key])]
      | Some ps \<Rightarrow> AList.update collection_name (ps @ [key]) d)"

fun collection_paths_from :: "(string \<times> string list) list \<Rightarrow> string list \<Rightarrow> (string \<times> string list) list" where
  "collection_paths_from d [] = d"
| "collection_paths_from d (key # keys) =
     (let path_parts = py_split CHR ''/'' key
      in if length path_parts \<ge> 3
         then collection_paths_from (add_path (path_parts ! 1) key d) keys
         else collection_paths_from d keys)"

definition collection_paths :: "string list \<Rightarrow> (string \<times> string list) list" where
  "collection_paths keys = collection_paths_from [] keys"

text \<open>The first path that ends with the given file name, as the two search loops do.\<close>

fun find_path :: "string \<Rightarrow> string list \<Rightarrow> string option" where
  "find_path suf [] = None"
| "find_path suf (path # paths) = (if endswith path suf then Some path else find_path suf paths)"

text \<open>
  \<^verbatim>\<open>dtype_map\<close> in the order of the literal, and the loop over \<^verbatim>\<open>dtype_map.items()\<close>
  with its test \<^verbatim>\<open>dtype_str in field["type"]\<close>, a substring test.
\<close>

definition dtype_map :: "(string \<times> DataType) list" where
  "dtype_map =
     [(''DataType.INT64'', INT64),
      (''DataType.FLOAT'', FLOAT),
      (''DataType.FLOAT_VECTOR'', FLOAT_VECTOR),
      (''DataType.BINARY_VECTOR'', BINARY_VECTOR),
      (''DataType.VARCHAR'', VARCHAR)]"

fun lookup_dtype :: "(string \<times> DataType) list \<Rightarrow> string \<Rightarrow> DataType option" where
  "lookup_dtype [] t = None"
| "lookup_dtype ((dtype_s, dtype_enum) # items) t =
     (if py_in dtype_s t then Some dtype_enum else lookup_dtype items t)"

definition get_default :: "'a option \<Rightarrow> 'a \<Rightarrow> 'a" where
  "get_default v d = (case v of None \<Rightarrow> d | Some x \<Rightarrow> x)"

text \<open>\<^verbatim>\<open>FieldSchema(**field_kwargs)\<close>: \<^verbatim>\<open>dim\<close> becomes the field's only type parameter.\<close>

definition make_field :: "field_dict \<Rightarrow> DataType \<Rightarrow> FieldSchema" where
  "make_field field field_type =
     \<lparr>fs_name = fd_name field,
      fs_dtype = field_type,
      fs_is_primary = get_default (fd_is_primary field) False,
      fs_description = get_default (fd_description field) '''',
      fs_auto_id = get_default (fd_auto_id field) False,
      fs_params =
        (case fd_params field of
           Some params \<Rightarrow>
             if field_type \<in> set [FLOAT_VECTOR, BINARY_VECTOR]
             then [(''dim'', get_default (map_of params ''dim'') 128)]
             else []
         | None \<Rightarrow> [])\<rparr>"

text \<open>\<^verbatim>\<open>str\<close> of the key that is looked up when the type is unknown: the class \<^verbatim>\<open>type\<close>.\<close>

definition type_repr :: string where
  "type_repr = ''<class '' @ [CHR 0x27] @ ''type'' @ [CHR 0x27] @ ''>''"

fun convert_fields :: "field_dict list \<Rightarrow> py_exn + FieldSchema list" where
  "convert_fields [] = Inr []"
| "convert_fields (field # rest) =
     (case lookup_dtype dtype_map (fd_type field) of
        None \<Rightarrow> Inl (KeyError type_repr)
      | Some field_type \<Rightarrow>
          (case convert_fields rest of
             Inl e \<Rightarrow> Inl e
           | Inr field_schemas \<Rightarrow> Inr (make_field field field_type # field_schemas)))"

definition create_one_index :: "string \<Rightarrow> index_info \<Rightarrow> cluster \<Rightarrow> cluster py" where
  "create_one_index collection_name index cl =
     create_index collection_name index
       (py_print (''Creating index on '' @ ix_field_name index @ '' with type '' @ ix_index_type index) cl)"

definition restore_indexes :: "string \<Rightarrow> string list \<Rightarrow> cluster \<Rightarrow> cluster py" where
  "restore_indexes collection_name paths cl =
     (case find_path ''/indexes.json'' paths of
        None \<Rightarrow> Ok cl
      | Some index_file \<Rightarrow>
          (case download_file index_file cl of
             None \<Rightarrow> Raise NoSuchKey cl
           | Some (SchemaDoc d) \<Rightarrow> Raise TypeError cl
           | Some (IndexDoc indexes) \<Rightarrow> for_each (create_one_index collection_name) indexes cl))"

text \<open>One round of \<^verbatim>\<open>for collection_name, paths in collection_paths.items()\<close>.\<close>

definition restore_collection :: "string \<times> string list \<Rightarrow> cluster \<Rightarrow> cluster py" where
  "restore_collection item cl0 =
     (let collection_name = fst item; paths = snd item;
          cl = py_print (''Processing collection: '' @ collection_name) cl0
      in case find_path ''/schema.json'' paths of
           None \<Rightarrow> Ok (py_print (''Schema file not found for '' @ collection_name @ '', skipping'') cl)
         | Some schema_file \<Rightarrow>
            (case download_file schema_file cl of
               None \<Rightarrow> Raise NoSuchKey cl
             | Some (IndexDoc ixs) \<Rightarrow> Raise TypeError cl
             | Some (SchemaDoc schema_data) \<Rightarrow>
                (case convert_fields (sd_fields schema_data) of
                   Inl e \<Rightarrow> Raise e cl
                 | Inr field_schemas \<Rightarrow>
                    (let collection_schema =
                           \<lparr>cs_description = get_default (sd_description schema_data) '''',
                            cs_fields = field_schemas\<rparr>;
                         cl1 = (if has_collection collection_name cl
                                then drop_collection collection_name
                                       (py_print (''Collection '' @ collection_name
                                                  @ '' already exists, dropping it'') cl)
                                else cl);
                         cl2 = py_print (''Creating collection '' @ collection_name) cl1
                     in then_py (Collection collection_name collection_schema cl2)
                          (\<lambda>cl3. then_py (restore_indexes collection_name paths cl3)
                             (\<lambda>cl4. Ok (py_print (''Collection '' @ collection_name
                                                   @ '' restored successfully'') cl4)))))))"

text \<open>The body of the \<^verbatim>\<open>try\<close>, which spans the listing and the whole loop.\<close>

definition restore_body :: "string \<Rightarrow> cluster \<Rightarrow> cluster py" where
  "restore_body MILVUS_BACKUP_PATH cl =
     (case list_objects_v2 (MILVUS_BACKUP_PATH @ ''/'') cl of
        None \<Rightarrow> Raise NoSuchBucket cl
      | Some Contents \<Rightarrow>
          if Contents = [] then SysExit 0 (py_print ''No backup content found'' cl)
          else then_py (for_each restore_collection (collection_paths Contents) cl)
                 (\<lambda>cl1. Ok (py_print ''Restore completed'' cl1)))"

definition restore_py :: "string \<Rightarrow> (nat \<Rightarrow> bool) \<Rightarrow> cluster \<Rightarrow> nat \<times> cluster" where
  "restore_py MILVUS_BACKUP_PATH ok cl0 =
     (case connect_retry ok (py_print ''Waiting for Milvus to be ready...'' cl0) of
        SysExit n cl1 \<Rightarrow> (n, cl1)
      | Raise e cl1 \<Rightarrow> (1, cl1)
      | Ok cl1 \<Rightarrow>
         (case restore_body MILVUS_BACKUP_PATH cl1 of
            Ok cl2 \<Rightarrow> (0, cl2)
          | SysExit n cl2 \<Rightarrow> (n, cl2)
          | Raise e cl2 \<Rightarrow> (0, py_print (''Error during restoration: '' @ exn_str e) cl2)))"

section \<open>The upgrade script (upgrade-milvus-to-cluster.sh)\<close>

subsection \<open>What the script runs in\<close>

text \<open>
  \<^verbatim>\<open>date +%Y%m%d%H%M%S\<close> prints the calendar time as fourteen digits. The clock of the
  fake gives the calendar fields and, beside them, the seconds since the epoch (which
  \<^verbatim>\<open>date +%s\<close> would print; the script never asks for them).
\<close>

record clock =
  c_year :: nat
  c_month :: nat
  c_day :: nat
  c_hour :: nat
  c_minute :: nat
  c_second :: nat
  c_epoch :: nat

definition zpad :: "nat \<Rightarrow> string \<Rightarrow> string" where
  "zpad w s = replicate (w - length s) CHR ''0'' @ s"

definition date_fmt :: "clock \<Rightarrow> string" where
  "date_fmt c =
     zpad 4 (dec (c_year c)) @ zpad 2 (dec (c_month c)) @ zpad 2 (dec (c_day c))
     @ zpad 2 (dec (c_hour c)) @ zpad 2 (dec (c_minute c)) @ zpad 2 (dec (c_second c))"

text \<open>The external commands the script runs, and which of them change something.\<close>

datatype call =
  KubectlGet string
  | KubectlApply string
  | KubectlWait string
  | KubectlLogs string
  | AwsHeadBucket string
  | AwsMakeBucket string
  | DateCmd
  | HelmRepoUpdate
  | HelmGetValues
  | HelmUpgrade

fun mutating :: "call \<Rightarrow> bool" where
  "mutating (KubectlApply f) = True"
| "mutating (AwsMakeBucket b) = True"
| "mutating HelmUpgrade = True"
| "mutating HelmRepoUpdate = True"
| "mutating c = False"

text \<open>What happens, in order: a line printed, an external command, a line read.\<close>

datatype event = Echo string | Call call | Read string

fun calls_of :: "event list \<Rightarrow> call list" where
  "calls_of [] = []"
| "calls_of (Call c # evs) = c # calls_of evs"
| "calls_of (ev # evs) = calls_of evs"

fun reads_of :: "event list \<Rightarrow> string list" where
  "reads_of [] = []"
| "reads_of (Read a # evs) = a # reads_of evs"
| "reads_of (ev # evs) = reads_of evs"

fun after_read :: "event list \<Rightarrow> event list" where
  "after_read [] = []"
| "after_read (Read a # evs) = evs"
| "after_read (ev # evs) = after_read evs"

text \<open>
  The inputs of a run: the environment variables, the commands installed, the lines on
  standard input, and the fakes (the cluster's nodes and storage classes, whether
  \<^verbatim>\<open>aws s3 mb\<close> succeeds, whether connection attempt \<open>i\<close> of the \<open>p\<close>-th job pod succeeds,
  what the Helm upgrade does to the collections, the LoadBalancer's host name, the
  database and bucket at the start, and the \<^verbatim>\<open>MILVUS_BACKUP_PATH\<close> of a
  \<^verbatim>\<open>milvus-backup-info.env\<close> left in the working directory, if there is one).
\<close>

record env =
  environ :: "string \<rightharpoonup> string"
  tools :: "string list"
  stdin_lines :: "string list"
  now :: clock
  node_count :: nat
  storageclasses :: "string list"
  mb_ok :: bool
  connect_ok :: "nat \<Rightarrow> nat \<Rightarrow> bool"
  helm_effect :: "(string \<times> collection) list \<Rightarrow> (string \<times> collection) list"
  lb_hostname :: string
  cluster0 :: cluster
  backup_info0 :: "string option"

text \<open>
  The state of a run: the shell variables, the input left, the backup-info file, the
  cluster, the number of job pods started, the jobs with their \<^verbatim>\<open>.status.succeeded\<close>, and
  the events so far.
\<close>

record sh_state =
  vars :: "string \<rightharpoonup> string"
  stdin :: "string list"
  backup_info :: "string option"
  cl :: cluster
  pods :: nat
  jobs :: "(string \<times> bool) list"
  trace :: "event list"

definition init :: "env \<Rightarrow> sh_state" where
  "init e =
     \<lparr>vars = environ e, stdin = stdin_lines e, backup_info = backup_info0 e,
      cl = cluster0 e, pods = 0, jobs = [], trace = []\<rparr>"

text \<open>A piece of the script either goes on or has called \<^verbatim>\<open>exit n\<close>.\<close>

datatype 'a sh = Running 'a | Exited nat 'a

definition then_sh :: "'a sh \<Rightarrow> ('a \<Rightarrow> 'a sh) \<Rightarrow> 'a sh" where
  "then_sh r f = (case r of Running s \<Rightarrow> f s | Exited n s \<Rightarrow> Exited n s)"

definition var :: "sh_state \<Rightarrow> string \<Rightarrow> string" where
  "var s k = (case vars s k of None \<Rightarrow> [] | Some v \<Rightarrow> v)"

definition setvar :: "string \<Rightarrow> string \<Rightarrow> sh_state \<Rightarrow> sh_state" where
  "setvar k v s = s\<lparr>vars := (vars s)(k \<mapsto> v)\<rparr>"

definition echo :: "string \<Rightarrow> sh_state \<Rightarrow> sh_state" where
  "echo msg s = s\<lparr>trace := trace s @ [Echo msg]\<rparr>"

definition run :: "call \<Rightarrow> sh_state \<Rightarrow> sh_state" where
  "run c s = s\<lparr>trace := trace s @ [Call c]\<rparr>"

text \<open>
  \<^verbatim>\<open>read -r v\<close>: the next line of input is consumed (the event records it as typed), and
  the value assigned is the line without its leading and trailing blanks; at the end of
  input the value is the empty string.
\<close>

definition read_r :: "string \<Rightarrow> sh_state \<Rightarrow> sh_state" where
  "read_r v s =
     (case stdin s of
        [] \<Rightarrow> setvar v [] (s\<lparr>trace := trace s @ [Read []]\<rparr>)
      | l # ls \<Rightarrow> setvar v (strip_blanks l) (s\<lparr>stdin := ls, trace := trace s @ [Read l]\<rparr>))"

text \<open>\<^verbatim>\<open>[[ "$x" =~ ^[Yy]$ ]]\<close>.\<close>

definition matches_Yy :: "string \<Rightarrow> bool" where
  "matches_Yy x = (x = ''y'' \<or> x = ''Y'')"

definition command_v :: "env \<Rightarrow> string \<Rightarrow> bool" where
  "command_v e t = (t \<in> set (tools e))"

subsection \<open>Environment and tool checks (top of the script)\<close>

text \<open>\<^verbatim>\<open>if [ -z "$K" ]; then echo ...; K=default; fi\<close>.\<close>

definition default_to :: "string \<Rightarrow> string \<Rightarrow> string \<Rightarrow> sh_state \<Rightarrow> sh_state" where
  "default_to k d msg s = (if test_z (var s k) then setvar k d (echo msg s) else s)"

definition default_backup_bucket :: "sh_state \<Rightarrow> sh_state" where
  "default_backup_bucket s =
     (if test_z (var s ''MILVUS_BACKUP_BUCKET_NAME'')
      then (let s' = setvar ''MILVUS_BACKUP_BUCKET_NAME'' (var s ''MILVUS_BUCKET_NAME'' @ ''-backup'') s
            in echo (''MILVUS_BACKUP_BUCKET_NAME not set. Using: '' @ var s' ''MILVUS_BACKUP_BUCKET_NAME'') s')
      else s)"

definition env_checks :: "env \<Rightarrow> sh_state \<Rightarrow> sh_state sh" where
  "env_checks e s0 =
     (let s1 = default_to ''AWS_REGION'' ''eu-central-1''
                 ''AWS_REGION not set. Using default: eu-central-1'' s0
      in if test_z (var s1 ''EKS_CLUSTER_NAME'')
         then Exited 1 (echo ''EKS_CLUSTER_NAME not set. Please export EKS_CLUSTER_NAME.'' s1)
         else
      (let s2 = default_to ''EKS_NAMESPACE'' ''milvus''
                  ''EKS_NAMESPACE not set. Using default: milvus'' s1
       in if test_z (var s2 ''MILVUS_BUCKET_NAME'')
          then Exited 1 (echo ''MILVUS_BUCKET_NAME not set. Please export MILVUS_BUCKET_NAME for S3 storage.'' s2)
          else
       (let s3 = default_backup_bucket s2
        in if test_z (var s3 ''AWS_ACCESS_KEY_ID'') \<or> test_z (var s3 ''AWS_SECRET_ACCESS_KEY'')
           then Exited 1 (echo ''AWS credentials not set. Please export AWS_ACCESS_KEY_ID and AWS_SECRET_ACCESS_KEY.'' s3)
           else if \<not> command_v e ''aws''
           then Exited 1 (echo ''AWS CLI is not installed. Please install it first.'' s3)
           else if \<not> command_v e ''kubectl''
           then Exited 1 (echo ''kubectl is not installed. Please install it first.'' s3)
           else if \<not> command_v e ''helm''
           then Exited 1 (echo ''helm is not installed. Please install it first.'' s3)
           else Running s3)))"

subsection \<open>check\_cluster\_resources\<close>

definition check_cluster_resources :: "env \<Rightarrow> sh_state \<Rightarrow> sh_state" where
  "check_cluster_resources e s0 =
     (let s1 = run (KubectlGet ''nodes'') (echo ''=== Checking Cluster Resources ==='' s0);
          NODE_COUNT = node_count e;
          s2 = (if NODE_COUNT < 5
                then echo (''Warning: Found only '' @ dec NODE_COUNT
                           @ '' nodes. Recommended: at least 5 nodes for cluster mode.'') s1
                else echo (''Node count: '' @ dec NODE_COUNT @ '' (sufficient for cluster mode)'') s1);
          s3 = run (KubectlGet ''nodes'') (echo ''Node sizes:'' s2);
          s4 = run (KubectlGet ''storageclass'') (echo ''Storage classes:'' s3);
          s5 = run (KubectlGet ''storageclass'') s4;
          s6 = (if \<not> list_ex (py_in ''gp2'') (storageclasses e)
                then echo ''Warning: gp2 storage class not found. This may cause issues with persistent volumes.'' s5
                else echo ''gp2 storage class found'' s5)
      in echo [] s6)"

subsection \<open>Kubernetes jobs\<close>

text \<open>
  Both manifests say \<^verbatim>\<open>restartPolicy: Never\<close> and \<^verbatim>\<open>backoffLimit: 3\<close>: the fake cluster
  starts a pod, and after a pod that exits non-zero another, up to four in all; the job has
  succeeded when a pod exits 0. The program of pod number \<open>p\<close> is \<open>prog p\<close>.
\<close>

fun run_pods :: "nat \<Rightarrow> (nat \<Rightarrow> cluster \<Rightarrow> nat \<times> cluster) \<Rightarrow> nat \<Rightarrow> cluster \<Rightarrow> bool \<times> nat \<times> cluster" where
  "run_pods 0 prog p c = (False, p, c)"
| "run_pods (Suc n) prog p c =
     (case prog p c of
        (code, c1) \<Rightarrow> if code = 0 then (True, Suc p, c1) else run_pods n prog (Suc p) c1)"

definition kubectl_apply_job :: "string \<Rightarrow> string \<Rightarrow> (nat \<Rightarrow> cluster \<Rightarrow> nat \<times> cluster) \<Rightarrow> sh_state \<Rightarrow> sh_state" where
  "kubectl_apply_job manifest job_name prog s0 =
     (let s = run (KubectlApply manifest) s0
      in case run_pods (Suc 3) prog (pods s) (cl s) of
           (ok, p, c) \<Rightarrow> s\<lparr>cl := c, pods := p, jobs := AList.update job_name ok (jobs s)\<rparr>)"

text \<open>\<^verbatim>\<open>kubectl get job ... -o jsonpath='{.status.succeeded}' | grep -q 1\<close>.\<close>

definition job_succeeded :: "string \<Rightarrow> sh_state \<Rightarrow> bool" where
  "job_succeeded job_name s = (map_of (jobs s) job_name = Some True)"

subsection \<open>create\_backup\<close>

definition backup_job_name :: "sh_state \<Rightarrow> string" where
  "backup_job_name s = ''milvus-backup-'' @ var s ''TIMESTAMP''"

text \<open>The first part of the function: the bucket, the time stamp, the job and the wait.\<close>

definition submit_backup :: "env \<Rightarrow> sh_state \<Rightarrow> sh_state" where
  "submit_backup e s0 =
     (let bucket = var s0 ''MILVUS_BACKUP_BUCKET_NAME'';
          s1 = run (AwsHeadBucket bucket)
                 (echo (''Creating/checking backup bucket: '' @ bucket)
                    (echo ''=== Creating Backup ==='' s0));
          s2 = (if \<not> s3_exists (cl s1)
                then (let s = run (AwsMakeBucket bucket) s1;
                          s' = (if mb_ok e then s\<lparr>cl := (cl s)\<lparr>s3_exists := True\<rparr>\<rparr> else s)
                      in echo (''Created backup bucket: '' @ bucket) s')
                else echo (''Backup bucket already exists: '' @ bucket) s1);
          s3 = setvar ''TIMESTAMP'' (date_fmt (now e)) (run DateCmd s2);
          s4 = echo ''Creating backup job...'' (echo ''Creating backup job manifest...'' s3);
          s5 = kubectl_apply_job ''milvus-backup-job.yaml'' (backup_job_name s4)
                 (\<lambda>p. backup_py (var s4 ''TIMESTAMP'') (connect_ok e p)) s4
      in run (KubectlWait (''job/'' @ backup_job_name s5))
           (echo ''Waiting for backup job to complete...'' s5))"

text \<open>
  The whole function: after the wait, the job's status decides, and on failure the
  operator does.
\<close>

definition create_backup :: "env \<Rightarrow> sh_state \<Rightarrow> sh_state sh" where
  "create_backup e s0 =
     (let s6 = submit_backup e s0;
          bucket = var s6 ''MILVUS_BACKUP_BUCKET_NAME'';
          TIMESTAMP = var s6 ''TIMESTAMP'';
          s7 = run (KubectlGet (''job '' @ backup_job_name s6)) s6
      in if job_succeeded (backup_job_name s7) s7
         then Running
                (echo []
                  ((echo (''Backup location: s3://'' @ bucket @ ''/backup-'' @ TIMESTAMP @ ''/'')
                     (echo ''Backup completed successfully'' s7))
                   \<lparr>backup_info := Some (''backup-'' @ TIMESTAMP)\<rparr>))
         else
           (let s8 = run (KubectlLogs (''job/'' @ backup_job_name s7))
                       (echo ''Backup failed. Check job logs:'' s7);
                s9 = read_r ''continue_anyway''
                       (echo ''Do you want to continue with the upgrade anyway? (y/N)'' s8)
            in if \<not> matches_Yy (var s9 ''continue_anyway'')
               then Exited 1 (echo ''Upgrade aborted.'' s9)
               else Running (echo [] s9)))"

subsection \<open>upgrade\_to\_cluster\<close>

definition upgrade_to_cluster :: "env \<Rightarrow> sh_state \<Rightarrow> sh_state" where
  "upgrade_to_cluster e s0 =
     (let s1 = run HelmRepoUpdate
                 (echo ''Updating Helm repository...'' (echo ''=== Upgrading to Cluster Mode ==='' s0));
          s2 = run HelmGetValues (echo ''Backing up current Helm values...'' s1);
          s3 = run HelmUpgrade (echo ''Upgrading Milvus to cluster mode with Pulsar...'' s2);
          s4 = s3\<lparr>cl := (cl s3)\<lparr>milvus := helm_effect e (milvus (cl s3))\<rparr>\<rparr>;
          s5 = echo ''Initial wait for pods to start (2 minutes)...''
                 (echo ''Upgrade command executed. Waiting for pods to start...'' s4);
          s6 = run (KubectlGet ''pods'') (echo ''Current pod status:'' s5);
          s7 = run (KubectlWait ''pod --all'') (echo ''Waiting for all pods to be ready...'' s6);
          s8 = run (KubectlGet ''pods'') (echo ''Final pod status:'' s7)
      in echo [] s8)"

subsection \<open>restore\_data\<close>

definition restore_data :: "env \<Rightarrow> sh_state \<Rightarrow> sh_state" where
  "restore_data e s0 =
     (case backup_info s0 of
        None \<Rightarrow> echo ''No backup information found. Skipping restoration.'' s0
      | Some path \<Rightarrow>
         (let s1 = setvar ''MILVUS_BACKUP_PATH'' path s0;
              MILVUS_BACKUP_PATH = var s1 ''MILVUS_BACKUP_PATH'';
              s2 = echo (''Restore source: s3://'' @ var s1 ''MILVUS_BACKUP_BUCKET_NAME'' @ ''/''
                         @ MILVUS_BACKUP_PATH @ ''/'')
                     (echo ''=== Restoring Data from Backup ==='' s1);
              s3 = kubectl_apply_job ''milvus-restore-job.yaml'' ''milvus-restore''
                     (\<lambda>p. restore_py MILVUS_BACKUP_PATH (connect_ok e p))
                     (echo ''Creating restore job...'' s2);
              s4 = run (KubectlLogs ''job/milvus-restore'')
                     (echo ''Restore job logs:'' (echo ''Waiting for restore job to start...'' s3));
              s5 = run (KubectlGet ''job milvus-restore'') s4;
              s6 = (if job_succeeded ''milvus-restore'' s5
                    then echo ''Restoration completed successfully'' s5
                    else echo ''Restoration may not have completed successfully. Check job logs for details.'' s5)
          in echo [] s6))"

subsection \<open>verify\_deployment\<close>

definition verify_deployment :: "env \<Rightarrow> sh_state \<Rightarrow> sh_state" where
  "verify_deployment e s0 =
     (let s1 = run (KubectlGet ''pods'')
                 (echo ''Pod status:'' (echo ''=== Verifying Cluster Deployment ==='' s0));
          s2 = run (KubectlGet ''svc'') (echo ''Service status:'' s1);
          s3 = run (KubectlGet ''pvc'') (echo ''Persistent volume claims:'' s2);
          s4 = setvar ''LB_DNS_NAME'' (lb_hostname e) (run (KubectlGet ''svc milvus'') s3);
          s5 = (if test_n (var s4 ''LB_DNS_NAME'')
                then echo (''Milvus is accessible at: '' @ var s4 ''LB_DNS_NAME'' @ '':19530'') s4
                else echo ''LoadBalancer address not found'' s4)
      in echo [] s5)"

subsection \<open>Main script flow\<close>

definition confirm_prompt :: "sh_state \<Rightarrow> sh_state" where
  "confirm_prompt s0 =
     read_r ''proceed''
       (echo ''Do you want to continue? (y/N)''
         (echo []
           (echo ''3. Restore your collections from backup''
             (echo ''2. Upgrade Milvus to cluster mode with Pulsar''
               (echo ''1. Back up your existing collections to S3''
                 (echo ''This process will:''
                   (echo ''This script will upgrade your Milvus deployment from standalone to cluster mode.'' s0)))))))"

definition banner :: "sh_state \<Rightarrow> sh_state" where
  "banner s0 = echo [] (echo ''  Milvus Upgrade: Standalone to Cluster Mode with Pulsar'' s0)"

definition closing :: "sh_state \<Rightarrow> sh_state" where
  "closing s0 =
     echo (''and restore from the backup at: s3://'' @ var s0 ''MILVUS_BACKUP_BUCKET_NAME'' @ ''/''
           @ var s0 ''MILVUS_BACKUP_PATH'' @ ''/'')
       (echo ''Note: If you need to roll back, you can reinstall Milvus in standalone mode''
         (echo ''Next steps:''
           (echo ''Milvus has been upgraded to cluster mode with Pulsar!'' s0)))"

text \<open>The stages after the confirmation.\<close>

definition upgrade_process :: "env \<Rightarrow> sh_state \<Rightarrow> sh_state sh" where
  "upgrade_process e s =
     then_sh (create_backup e s)
       (\<lambda>s1. Running (closing (verify_deployment e (restore_data e (upgrade_to_cluster e s1)))))"

definition main_flow :: "env \<Rightarrow> sh_state \<Rightarrow> sh_state sh" where
  "main_flow e s0 =
     (let s1 = confirm_prompt (check_cluster_resources e (banner s0))
      in if \<not> matches_Yy (var s1 ''proceed'')
         then Exited 0 (echo ''Upgrade aborted.'' s1)
         else upgrade_process e s1)"

text \<open>The script: its exit status and the state it leaves.\<close>

definition upgrade_script :: "env \<Rightarrow> nat \<times> sh_state" where
  "upgrade_script e =
     (case then_sh (env_checks e (init e)) (main_flow e) of
        Exited n s \<Rightarrow> (n, s)
      | Running s \<Rightarrow> (0, s))"

section \<open>Access bootstrap: the IAM policies and roles\<close>

text \<open>
  Two scripts make sure that an IAM policy and an IAM role exist. The fake IAM holds the
  names of the account's policies and roles and the attachments (role name, policy ARN);
  an ARN is determined by the account and the name. \<^verbatim>\<open>create-policy\<close> and
  \<^verbatim>\<open>create-role\<close> fail when the name is taken; \<^verbatim>\<open>attach-role-policy\<close> on an attachment
  that exists changes nothing.
\<close>

record iam =
  account :: string
  policies :: "string list"
  roles :: "string list"
  attached :: "(string \<times> string) list"

datatype aws_error = EntityAlreadyExists | NoSuchEntity

definition policy_arn :: "iam \<Rightarrow> string \<Rightarrow> string" where
  "policy_arn a n = ''arn:aws:iam::'' @ account a @ '':policy/'' @ n"

definition role_arn :: "iam \<Rightarrow> string \<Rightarrow> string" where
  "role_arn a n = ''arn:aws:iam::'' @ account a @ '':role/'' @ n"

text \<open>\<^verbatim>\<open>aws iam create-policy --policy-name n ... --query Policy.Arn --output text\<close>.\<close>

definition create_policy :: "string \<Rightarrow> iam \<Rightarrow> aws_error + string \<times> iam" where
  "create_policy n a =
     (if n \<in> set (policies a) then Inl EntityAlreadyExists
      else Inr (policy_arn a n, a\<lparr>policies := policies a @ [n]\<rparr>))"

text \<open>\<^verbatim>\<open>aws iam list-policies --query 'Policies[?PolicyName==`n`].Arn' --output text\<close>.\<close>

definition list_policies_arn :: "string \<Rightarrow> iam \<Rightarrow> string" where
  "list_policies_arn n a = (if n \<in> set (policies a) then policy_arn a n else [])"

text \<open>\<^verbatim>\<open>aws iam get-policy --policy-arn arn\<close>: whether it succeeds.\<close>

definition get_policy :: "string \<Rightarrow> iam \<Rightarrow> bool" where
  "get_policy arn a = (arn \<in> set (map (policy_arn a) (policies a)))"

definition create_role :: "string \<Rightarrow> iam \<Rightarrow> aws_error + string \<times> iam" where
  "create_role n a =
     (if n \<in> set (roles a) then Inl EntityAlreadyExists
      else Inr (role_arn a n, a\<lparr>roles := roles a @ [n]\<rparr>))"

definition get_role :: "string \<Rightarrow> iam \<Rightarrow> aws_error + string" where
  "get_role n a = (if n \<in> set (roles a) then Inr (role_arn a n) else Inl NoSuchEntity)"

definition attach_role_policy :: "string \<Rightarrow> string \<Rightarrow> iam \<Rightarrow> aws_error + iam" where
  "attach_role_policy r arn a =
     (if r \<in> set (roles a) \<and> get_policy arn a
      then Inr (a\<lparr>attached := List.insert (r, arn) (attached a)\<rparr>)
      else Inl NoSuchEntity)"

text \<open>The IAM calls of a run, each with whether it succeeded.\<close>

datatype iam_call =
  CreatePolicy string bool
  | ListPolicies string
  | GetPolicy string bool
  | CreateRole string bool
  | GetRole string bool
  | AttachRolePolicy string string bool

text \<open>
  The state of a run: the IAM, the shell variables \<^verbatim>\<open>POLICY_ARN\<close> and \<^verbatim>\<open>ROLE_ARN\<close>, the
  calls made, and the exit status (not 0 once a command has failed under \<^verbatim>\<open>set -e\<close>).
\<close>

record bootstrap =
  b_iam :: iam
  POLICY_ARN :: string
  ROLE_ARN :: string
  b_calls :: "iam_call list"
  b_status :: nat

definition new_bootstrap :: "iam \<Rightarrow> bootstrap" where
  "new_bootstrap a = \<lparr>b_iam = a, POLICY_ARN = [], ROLE_ARN = [], b_calls = [], b_status = 0\<rparr>"

definition log_call :: "iam_call \<Rightarrow> bootstrap \<Rightarrow> bootstrap" where
  "log_call c r = r\<lparr>b_calls := b_calls r @ [c]\<rparr>"

text \<open>
  \<^verbatim>\<open>aws iam attach-role-policy --role-name r --policy-arn $POLICY_ARN\<close>; \<open>fatal\<close> says
  whether the script runs under \<^verbatim>\<open>set -e\<close>.
\<close>

definition attach_policy :: "string \<Rightarrow> bool \<Rightarrow> bootstrap \<Rightarrow> bootstrap" where
  "attach_policy role_name fatal r =
     (case attach_role_policy role_name (POLICY_ARN r) (b_iam r) of
        Inr a \<Rightarrow> log_call (AttachRolePolicy role_name (POLICY_ARN r) True) (r\<lparr>b_iam := a\<rparr>)
      | Inl err \<Rightarrow>
          log_call (AttachRolePolicy role_name (POLICY_ARN r) False)
            (if fatal then r\<lparr>b_status := 1\<rparr> else r))"

subsection \<open>The EKS admin policy and role (create, or else look up)\<close>

text \<open>
  \<^verbatim>\<open>POLICY_ARN=$(aws iam create-policy ... 2>/dev/null || aws iam list-policies ...)\<close>: the
  assignment has the status of the last command that ran, and \<^verbatim>\<open>list-policies\<close> succeeds.
\<close>

definition create_or_list_policy :: "string \<Rightarrow> bootstrap \<Rightarrow> bootstrap" where
  "create_or_list_policy n r =
     (case create_policy n (b_iam r) of
        Inr (arn, a) \<Rightarrow> log_call (CreatePolicy n True) (r\<lparr>b_iam := a, POLICY_ARN := arn\<rparr>)
      | Inl err \<Rightarrow>
          log_call (ListPolicies n)
            (log_call (CreatePolicy n False) (r\<lparr>POLICY_ARN := list_policies_arn n (b_iam r)\<rparr>)))"

text \<open>
  \<^verbatim>\<open>ROLE_ARN=$(aws iam create-role ... 2>/dev/null || aws iam get-role ...)\<close>, under
  \<^verbatim>\<open>set -e\<close>: when both fail the script ends.
\<close>

definition create_or_get_role :: "string \<Rightarrow> bootstrap \<Rightarrow> bootstrap" where
  "create_or_get_role n r =
     (case create_role n (b_iam r) of
        Inr (arn, a) \<Rightarrow> log_call (CreateRole n True) (r\<lparr>b_iam := a, ROLE_ARN := arn\<rparr>)
      | Inl err \<Rightarrow>
          (case get_role n (b_iam r) of
             Inr arn \<Rightarrow> log_call (GetRole n True) (log_call (CreateRole n False) (r\<lparr>ROLE_ARN := arn\<rparr>))
           | Inl err2 \<Rightarrow> log_call (GetRole n False) (log_call (CreateRole n False) (r\<lparr>b_status := 1\<rparr>))))"

definition eks_admin_access :: "iam \<Rightarrow> bootstrap" where
  "eks_admin_access a0 =
     (let r1 = create_or_list_policy ''EksAdminPolicy'' (new_bootstrap a0);
          ROLE_NAME = ''eks-admin-role'';
          r2 = create_or_get_role ROLE_NAME r1
      in if b_status r2 \<noteq> 0 then r2 else attach_policy ROLE_NAME True r2)"

subsection \<open>The load balancer controller's policy and role (look up, or else create)\<close>

text \<open>
  \<^verbatim>\<open>setup-eks-access.sh\<close>, second script (no \<^verbatim>\<open>set -e\<close>):
  \<^verbatim>\<open>if aws iam get-policy --policy-arn arn:aws:iam::<account>:policy/$POLICY_NAME; then\<close> the ARN
  is put together from the account and the name, \<^verbatim>\<open>else\<close> the policy is created.
\<close>

definition get_or_create_policy :: "string \<Rightarrow> bootstrap \<Rightarrow> bootstrap" where
  "get_or_create_policy n r =
     (if get_policy (policy_arn (b_iam r) n) (b_iam r)
      then log_call (GetPolicy n True) (r\<lparr>POLICY_ARN := policy_arn (b_iam r) n\<rparr>)
      else (case create_policy n (b_iam r) of
              Inr (arn, a) \<Rightarrow>
                log_call (CreatePolicy n True) (log_call (GetPolicy n False) (r\<lparr>b_iam := a, POLICY_ARN := arn\<rparr>))
            | Inl err \<Rightarrow>
                log_call (CreatePolicy n False) (log_call (GetPolicy n False) (r\<lparr>POLICY_ARN := []\<rparr>))))"

text \<open>
  \<^verbatim>\<open>if aws iam get-role --role-name $ROLE_NAME; then\<close> the ARN is read with a second
  \<^verbatim>\<open>get-role\<close>, \<^verbatim>\<open>else\<close> the role is created and the policy is attached to it.
\<close>

definition get_or_create_role :: "string \<Rightarrow> bootstrap \<Rightarrow> bootstrap" where
  "get_or_create_role n r =
     (case get_role n (b_iam r) of
        Inr arn \<Rightarrow> log_call (GetRole n True) (log_call (GetRole n True) (r\<lparr>ROLE_ARN := arn\<rparr>))
      | Inl err \<Rightarrow>
          attach_policy n False
            (case create_role n (b_iam r) of
               Inr (arn, a) \<Rightarrow>
                 log_call (CreateRole n True) (log_call (GetRole n False) (r\<lparr>b_iam := a, ROLE_ARN := arn\<rparr>))
             | Inl err2 \<Rightarrow>
                 log_call (CreateRole n False) (log_call (GetRole n False) (r\<lparr>ROLE_ARN := []\<rparr>))))"

definition lb_controller_access :: "iam \<Rightarrow> bootstrap" where
  "lb_controller_access a0 =
     get_or_create_role ''AmazonEKSLoadBalancerControllerRole''
       (get_or_create_policy ''AWSLoadBalancerControllerIAMPolicy'' (new_bootstrap a0))"

section \<open>Notions used to state the properties\<close>

text \<open>The variables and commands the upgrade script cannot do without.\<close>

definition required_vars :: "string list" where
  "required_vars = [''EKS_CLUSTER_NAME'', ''MILVUS_BUCKET_NAME'', ''AWS_ACCESS_KEY_ID'', ''AWS_SECRET_ACCESS_KEY'']"

definition required_tools :: "string list" where
  "required_tools = [''aws'', ''kubectl'', ''helm'']"

text \<open>A variable is missing when it is unset or empty: \<^verbatim>\<open>[ -z "$X" ]\<close> sees no difference.\<close>

definition missing :: "env \<Rightarrow> string \<Rightarrow> bool" where
  "missing e k = (case environ e k of None \<Rightarrow> True | Some v \<Rightarrow> v = [])"

definition precondition_fails :: "env \<Rightarrow> bool" where
  "precondition_fails e =
     (list_ex (missing e) required_vars \<or> list_ex (\<lambda>t. \<not> command_v e t) required_tools)"

definition or_default :: "env \<Rightarrow> string \<Rightarrow> string \<Rightarrow> string" where
  "or_default e k d = (case environ e k of None \<Rightarrow> d | Some v \<Rightarrow> if v = [] then d else v)"

text \<open>All the checks at the top of the script pass in this state.\<close>

definition checks_pass :: "env \<Rightarrow> sh_state \<Rightarrow> bool" where
  "checks_pass e s =
     (\<not> test_z (var s ''EKS_CLUSTER_NAME'') \<and> \<not> test_z (var s ''MILVUS_BUCKET_NAME'')
      \<and> \<not> test_z (var s ''AWS_ACCESS_KEY_ID'') \<and> \<not> test_z (var s ''AWS_SECRET_ACCESS_KEY'')
      \<and> command_v e ''aws'' \<and> command_v e ''kubectl'' \<and> command_v e ''helm'')"

text \<open>
  The line the next \<^verbatim>\<open>read -r\<close> consumes, as it was typed, and the answer it assigns to
  the variable: that line without its leading and trailing blanks.
\<close>

definition next_line :: "string list \<Rightarrow> string" where
  "next_line ls = (case ls of [] \<Rightarrow> [] | l # r \<Rightarrow> l)"

definition answer :: "string list \<Rightarrow> string" where
  "answer ls = strip_blanks (next_line ls)"

text \<open>
  A pod connects when one of its ten attempts succeeds; a job connects when one of its
  four pods, numbered from \<open>p0\<close>, does.
\<close>

definition connects :: "(nat \<Rightarrow> bool) \<Rightarrow> bool" where
  "connects ok = list_ex ok [0..<10]"

definition job_connects :: "env \<Rightarrow> nat \<Rightarrow> bool" where
  "job_connects e p0 = list_ex (\<lambda>k. connects (connect_ok e (p0 + k))) [0..<4]"

definition is_exit :: "'a py \<Rightarrow> bool" where
  "is_exit r = (case r of SysExit n s \<Rightarrow> True | Ok s \<Rightarrow> False | Raise e s \<Rightarrow> False)"

text \<open>
  What the restore makes of a collection's documents: the schema rebuilt from the schema
  document, and the indexes recorded in the index document (none without one).
\<close>

definition rebuilt_schema :: "schema_dict \<Rightarrow> FieldSchema list \<Rightarrow> CollectionSchema" where
  "rebuilt_schema schema_data field_schemas =
     \<lparr>cs_description = get_default (sd_description schema_data) [], cs_fields = field_schemas\<rparr>"

definition restored_indexes :: "string list \<Rightarrow> cluster \<Rightarrow> index_info list" where
  "restored_indexes paths c =
     (case find_path ''/indexes.json'' paths of
        None \<Rightarrow> []
      | Some index_file \<Rightarrow>
          (case download_file index_file c of
             Some (IndexDoc indexes) \<Rightarrow> indexes
           | Some (SchemaDoc d) \<Rightarrow> []
           | None \<Rightarrow> []))"

text \<open>
  The backup manifest as the restore sees it: the keys listed under the backup prefix,
  grouped by collection name.
\<close>

definition backup_listing :: "string \<Rightarrow> cluster \<Rightarrow> string list" where
  "backup_listing path c = (case list_objects_v2 (path @ ''/'') c of None \<Rightarrow> [] | Some keys \<Rightarrow> keys)"

definition manifest :: "string \<Rightarrow> cluster \<Rightarrow> (string \<times> string list) list" where
  "manifest path c = collection_paths (backup_listing path c)"

text \<open>The state a piece of Python leaves, however it ends.\<close>

fun state_of :: "'a py \<Rightarrow> 'a" where
  "state_of (Ok s) = s"
| "state_of (Raise e s) = s"
| "state_of (SysExit n s) = s"

text \<open>
  The schema document of a collection: the dictionary the backup job builds from the
  collection's schema and uploads as \<^verbatim>\<open>schema.json\<close>.
\<close>

definition backup_doc :: "string \<Rightarrow> CollectionSchema \<Rightarrow> schema_dict" where
  "backup_doc n schema =
     \<lparr>sd_name = n, sd_description = Some (cs_description schema),
      sd_fields = map field_to_dict (cs_fields schema)\<rparr>"

text \<open>
  The fields outside the two slips of the type conversion and outside the type parameters
  the restore does not carry: an INT64, FLOAT or VARCHAR field without type parameters, or
  a BINARY\_VECTOR field whose only type parameter is its \<^verbatim>\<open>dim\<close>.
\<close>

definition plain_field :: "FieldSchema \<Rightarrow> bool" where
  "plain_field field =
     (if fs_dtype field = BINARY_VECTOR then map fst (fs_params field) = [''dim'']
      else fs_dtype field \<in> set [INT64, FLOAT, VARCHAR] \<and> fs_params field = [])"

text \<open>
  The restore loop reaches the round of the collection \<open>k\<close>, and that round and the rounds
  before it end without an exception.
\<close>

fun round_completes :: "string \<Rightarrow> (string \<times> string list) list \<Rightarrow> cluster \<Rightarrow> bool" where
  "round_completes k [] c = False"
| "round_completes k (item # items) c =
     (case restore_collection item c of
        Ok c1 \<Rightarrow> fst item = k \<or> round_completes k items c1
      | Raise e c1 \<Rightarrow> False
      | SysExit n c1 \<Rightarrow> False)"

text \<open>
  The key convention in the words of the specification,
  \<^verbatim>\<open>backup-<timestamp>/<collection-name>/<file>\<close>, and the same with the time stamp read
  as the specification says, the seconds since the epoch.
\<close>

definition layout_key :: "string \<Rightarrow> string \<Rightarrow> string \<Rightarrow> string" where
  "layout_key stamp n fl = ''backup-'' @ stamp @ ''/'' @ n @ ''/'' @ fl"

definition unix_key :: "clock \<Rightarrow> string \<Rightarrow> string \<Rightarrow> string" where
  "unix_key clk n fl = layout_key (dec (c_epoch clk)) n fl"

text \<open>
  The objects of one collection under that convention: its schema document, and its index
  document if it has an index.
\<close>

definition backup_objects :: "string \<Rightarrow> string \<Rightarrow> collection \<Rightarrow> (string \<times> s3_object) list" where
  "backup_objects stamp n col =
     (layout_key stamp n ''schema.json'', SchemaDoc (backup_doc n (col_schema col)))
     # (if collect_indexes col = [] then []
        else [(layout_key stamp n ''indexes.json'', IndexDoc (collect_indexes col))])"

definition slash_free :: "string \<Rightarrow> bool" where
  "slash_free s = (CHR ''/'' \<notin> set s)"

text \<open>
  The restore files a key under the collection name \<open>n\<close>: the key has at least three parts
  between slashes and the second is \<open>n\<close>.
\<close>

definition filed_under :: "string \<Rightarrow> string \<Rightarrow> bool" where
  "filed_under n key = (3 \<le> length (py_split CHR ''/'' key) \<and> py_split CHR ''/'' key ! 1 = n)"

section \<open>Concrete inputs\<close>

text \<open>
  The collection of the specification's concrete case: \<^verbatim>\<open>docs\<close> with the primary key
  \<^verbatim>\<open>id\<close> (INT64) and the vector \<^verbatim>\<open>vec\<close> (FLOAT\_VECTOR, dimension 128), first as it is in
  the database, then as the JSON document the specification gives.
\<close>

definition docs_fields :: "FieldSchema list" where
  "docs_fields =
     [\<lparr>fs_name = ''id'', fs_dtype = INT64, fs_is_primary = True, fs_description = [],
       fs_auto_id = False, fs_params = []\<rparr>,
      \<lparr>fs_name = ''vec'', fs_dtype = FLOAT_VECTOR, fs_is_primary = False, fs_description = [],
       fs_auto_id = False, fs_params = [(''dim'', 128)]\<rparr>]"

definition docs_collection :: collection where
  "docs_collection =
     \<lparr>col_schema = \<lparr>cs_description = [], cs_fields = docs_fields\<rparr>, col_indexes = []\<rparr>"

definition docs_schema_json :: schema_dict where
  "docs_schema_json =
     \<lparr>sd_name = ''docs'', sd_description = None,
      sd_fields =
        [\<lparr>fd_name = ''id'', fd_description = None, fd_type = ''DataType.INT64'',
          fd_is_primary = Some True, fd_auto_id = None, fd_params = None\<rparr>,
         \<lparr>fd_name = ''vec'', fd_description = None, fd_type = ''DataType.FLOAT_VECTOR'',
          fd_is_primary = None, fd_auto_id = None, fd_params = Some [(''dim'', 128)]\<rparr>]\<rparr>"

text \<open>Noon of 1 January 2024 (UTC), 1704110400 seconds after the epoch.\<close>

definition clock0 :: clock where
  "clock0 = \<lparr>c_year = 2024, c_month = 1, c_day = 1, c_hour = 12, c_minute = 0, c_second = 0,
             c_epoch = 1704110400\<rparr>"

text \<open>
  A run in which everything is in place: the variables, the tools, a reachable database
  that holds \<^verbatim>\<open>docs\<close>, no backup bucket yet, and an operator who answers \<^verbatim>\<open>y\<close>.
\<close>

definition example_env :: env where
  "example_env =
     \<lparr>environ = [''EKS_CLUSTER_NAME'' \<mapsto> ''milvus-cluster'', ''MILVUS_BUCKET_NAME'' \<mapsto> ''milvus-data'',
                 ''AWS_ACCESS_KEY_ID'' \<mapsto> ''AKIAEXAMPLE'', ''AWS_SECRET_ACCESS_KEY'' \<mapsto> ''secret''],
      tools = [''aws'', ''kubectl'', ''helm''],
      stdin_lines = [''y''],
      now = clock0,
      node_count = 5,
      storageclasses = [''gp2 (default)''],
      mb_ok = True,
      connect_ok = (\<lambda>p i. True),
      helm_effect = (\<lambda>m. m),
      lb_hostname = ''lb.example.com'',
      cluster0 = \<lparr>milvus = [(''docs'', docs_collection)], s3_exists = False, s3_objects = [], logs = []\<rparr>,
      backup_info0 = None\<rparr>"

text \<open>A database that holds \<^verbatim>\<open>docs\<close> and an empty backup bucket.\<close>

definition docs_cluster :: cluster where
  "docs_cluster = \<lparr>milvus = [(''docs'', docs_collection)], s3_exists = True, s3_objects = [], logs = []\<rparr>"

text \<open>
  A backup of two collections: \<^verbatim>\<open>audit\<close>, whose second field is a DOUBLE (a type the
  table of the restore does not have), and \<^verbatim>\<open>docs\<close>; the database is empty. The bucket
  lists \<^verbatim>\<open>audit\<close> before \<^verbatim>\<open>docs\<close>.
\<close>

definition audit_schema_json :: schema_dict where
  "audit_schema_json =
     \<lparr>sd_name = ''audit'', sd_description = Some [],
      sd_fields =
        [\<lparr>fd_name = ''id'', fd_description = Some [], fd_type = ''DataType.INT64'',
          fd_is_primary = Some True, fd_auto_id = Some False, fd_params = Some []\<rparr>,
         \<lparr>fd_name = ''score'', fd_description = Some [], fd_type = ''DataType.DOUBLE'',
          fd_is_primary = Some False, fd_auto_id = Some False, fd_params = Some []\<rparr>]\<rparr>"

definition audit_backup :: cluster where
  "audit_backup =
     \<lparr>milvus = [], s3_exists = True,
      s3_objects = [(''backup-20240101120000/docs/schema.json'', SchemaDoc docs_schema_json),
                    (''backup-20240101120000/audit/schema.json'', SchemaDoc audit_schema_json)],
      logs = []\<rparr>"

text \<open>
  The state of a run that is about to restore from that backup, and the state of a run
  in which no backup-info file was written.
\<close>

definition audit_state :: sh_state where
  "audit_state = (init example_env)\<lparr>backup_info := Some ''backup-20240101120000'', cl := audit_backup\<rparr>"

definition no_backup_state :: sh_state where
  "no_backup_state = (init example_env)\<lparr>backup_info := None\<rparr>"

text \<open>A run in which the database cannot be reached and the operator answers \<^verbatim>\<open>y\<close>, then \<^verbatim>\<open>Y\<close>.\<close>

definition unreachable_env :: env where
  "unreachable_env = example_env\<lparr>stdin_lines := [''y'', ''Y''], connect_ok := (\<lambda>p i. False)\<rparr>"

text \<open>
  The same two runs with an answer typed between blanks: \<^verbatim>\<open> y \<close> at the confirmation, and
  \<^verbatim>\<open> y \<close> at the question after the failed backup.
\<close>

definition padded_env :: env where
  "padded_env = example_env\<lparr>stdin_lines := ['' y '']\<rparr>"

definition padded_unreachable_env :: env where
  "padded_unreachable_env = unreachable_env\<lparr>stdin_lines := [''y'', '' y '']\<rparr>"

text \<open>
  A database in which a collection \<^verbatim>\<open>docs\<close> of another shape exists (one VARCHAR field, one
  index), with a backup prefix that holds only an index document for \<^verbatim>\<open>docs\<close>.
\<close>

definition old_docs :: collection where
  "old_docs =
     \<lparr>col_schema =
        \<lparr>cs_description = ''old'',
         cs_fields = [\<lparr>fs_name = ''title'', fs_dtype = VARCHAR, fs_is_primary = True,
                       fs_description = [], fs_auto_id = False, fs_params = [(''max_length'', 64)]\<rparr>]\<rparr>,
      col_indexes = [\<lparr>ix_field_name = ''title'', ix_index_type = ''TRIE'', ix_params = []\<rparr>]\<rparr>"

definition orphan_cluster :: cluster where
  "orphan_cluster =
     \<lparr>milvus = [(''docs'', old_docs)], s3_exists = True,
      s3_objects = [(''backup-20240101120000/docs/indexes.json'',
                     IndexDoc [\<lparr>ix_field_name = ''vec'', ix_index_type = ''IVF_FLAT'', ix_params = []\<rparr>])],
      logs = []\<rparr>"

text \<open>
  A backup of a collection \<^verbatim>\<open>notes\<close> (a primary key, a score and a binary signature with
  an index) as the backup job writes it, in a database where a collection \<^verbatim>\<open>notes\<close> of
  another shape exists.
\<close>

definition notes_schema :: CollectionSchema where
  "notes_schema =
     \<lparr>cs_description = ''notes'',
      cs_fields =
        [\<lparr>fs_name = ''id'', fs_dtype = INT64, fs_is_primary = True, fs_description = [],
          fs_auto_id = True, fs_params = []\<rparr>,
         \<lparr>fs_name = ''score'', fs_dtype = FLOAT, fs_is_primary = False, fs_description = ''rank'',
          fs_auto_id = False, fs_params = []\<rparr>,
         \<lparr>fs_name = ''sig'', fs_dtype = BINARY_VECTOR, fs_is_primary = False, fs_description = [],
          fs_auto_id = False, fs_params = [(''dim'', 256)]\<rparr>]\<rparr>"

definition notes_index :: index_info where
  "notes_index = \<lparr>ix_field_name = ''sig'', ix_index_type = ''BIN_FLAT'', ix_params = []\<rparr>"

definition notes_cluster :: cluster where
  "notes_cluster =
     \<lparr>milvus = [(''notes'', old_docs)], s3_exists = True,
      s3_objects = [(''backup-20240101120000/notes/schema.json'', SchemaDoc (backup_doc ''notes'' notes_schema)),
                    (''backup-20240101120000/notes/indexes.json'', IndexDoc [notes_index])],
      logs = []\<rparr>"

text \<open>
  A backup prefix whose first collection, \<^verbatim>\<open>audit\<close>, has an index document that names a
  field the schema document does not have, followed by \<^verbatim>\<open>docs\<close>, in a database where a
  collection \<^verbatim>\<open>docs\<close> of another shape exists.
\<close>

definition broken_cluster :: cluster where
  "broken_cluster =
     \<lparr>milvus = [(''docs'', old_docs)], s3_exists = True,
      s3_objects = [(''backup-20240101120000/audit/schema.json'',
                     SchemaDoc \<lparr>sd_name = ''audit'', sd_description = Some [],
                                sd_fields = [\<lparr>fd_name = ''id'', fd_description = Some [],
                                              fd_type = ''DataType.INT64'', fd_is_primary = Some True,
                                              fd_auto_id = Some False, fd_params = Some []\<rparr>]\<rparr>),
                    (''backup-20240101120000/audit/indexes.json'',
                     IndexDoc [\<lparr>ix_field_name = ''vec'', ix_index_type = ''IVF_FLAT'', ix_params = []\<rparr>]),
                    (''backup-20240101120000/docs/schema.json'', SchemaDoc docs_schema_json)],
      logs = []\<rparr>"
text \<open>
  A database that holds \<^verbatim>\<open>notes\<close>, with the index on its signature, and an empty backup
  bucket.
\<close>

definition notes_db :: cluster where
  "notes_db =
     \<lparr>milvus = [(''notes'', \<lparr>col_schema = notes_schema, col_indexes = [notes_index]\<rparr>)],
      s3_exists = True, s3_objects = [], logs = []\<rparr>"

text \<open>A backup prefix that holds the schema documents of 1001 collections.\<close>

definition big_backup :: cluster where
  "big_backup =
     \<lparr>milvus = [], s3_exists = True,
      s3_objects = map (\<lambda>i. (''backup-20240101120000/c'' @ dec i @ ''/schema.json'', SchemaDoc docs_schema_json))
                       [0..<1001],
      logs = []\<rparr>"

section \<open>Basic facts about the shell state\<close>

lemma var_setvar [simp]: "var (setvar k v s) k' = (if k' = k then v else var s k')"
  by (simp add: var_def setvar_def)

lemma var_updates [simp]:
  "var (s\<lparr>cl := c\<rparr>) k = var s k" "var (s\<lparr>backup_info := b\<rparr>) k = var s k"
  by (simp_all add: var_def)

lemma setvar_fields [simp]:
  "trace (setvar k v s) = trace s" "stdin (setvar k v s) = stdin s"
  "backup_info (setvar k v s) = backup_info s" "cl (setvar k v s) = cl s"
  "pods (setvar k v s) = pods s" "jobs (setvar k v s) = jobs s"
  by (simp_all add: setvar_def)

lemma echo_fields [simp]:
  "var (echo m s) k = var s k" "trace (echo m s) = trace s @ [Echo m]"
  "stdin (echo m s) = stdin s" "backup_info (echo m s) = backup_info s"
  "cl (echo m s) = cl s" "pods (echo m s) = pods s" "jobs (echo m s) = jobs s"
  by (simp_all add: echo_def var_def)

lemma run_fields [simp]:
  "var (run c s) k = var s k" "trace (run c s) = trace s @ [Call c]"
  "stdin (run c s) = stdin s" "backup_info (run c s) = backup_info s"
  "cl (run c s) = cl s" "pods (run c s) = pods s" "jobs (run c s) = jobs s"
  by (simp_all add: run_def var_def)

lemma read_r_fields [simp]:
  "var (read_r v s) k = (if k = v then answer (stdin s) else var s k)"
  "trace (read_r v s) = trace s @ [Read (next_line (stdin s))]"
  "stdin (read_r v s) = tl (stdin s)" "backup_info (read_r v s) = backup_info s"
  "cl (read_r v s) = cl s" "pods (read_r v s) = pods s" "jobs (read_r v s) = jobs s"
  by (simp_all add: read_r_def next_line_def answer_def strip_blanks_def var_def setvar_def
      split: list.splits)

lemma apply_job_fields [simp]:
  "var (kubectl_apply_job m j prog s) k = var s k"
  "trace (kubectl_apply_job m j prog s) = trace s @ [Call (KubectlApply m)]"
  "stdin (kubectl_apply_job m j prog s) = stdin s"
  "backup_info (kubectl_apply_job m j prog s) = backup_info s"
  "jobs (kubectl_apply_job m j prog s) = AList.update j (fst (run_pods (Suc 3) prog (pods s) (cl s))) (jobs s)"
  "cl (kubectl_apply_job m j prog s) = snd (snd (run_pods (Suc 3) prog (pods s) (cl s)))"
  "pods (kubectl_apply_job m j prog s) = fst (snd (run_pods (Suc 3) prog (pods s) (cl s)))"
  by (simp_all add: kubectl_apply_job_def Let_def var_def run_def split: prod.splits)

lemma calls_of_append [simp]: "calls_of (xs @ ys) = calls_of xs @ calls_of ys"
  by (induction xs rule: calls_of.induct) simp_all

lemma reads_of_append [simp]: "reads_of (xs @ ys) = reads_of xs @ reads_of ys"
  by (induction xs rule: reads_of.induct) simp_all

lemma after_read_no_read: "reads_of xs = [] \<Longrightarrow> after_read (xs @ ys) = after_read ys"
  by (induction xs rule: reads_of.induct) simp_all

lemma init_fields [simp]:
  "trace (init e) = []" "stdin (init e) = stdin_lines e" "jobs (init e) = []"
  "backup_info (init e) = backup_info0 e" "cl (init e) = cluster0 e" "pods (init e) = 0"
  by (simp_all add: init_def)

lemma var_init: "var (init e) k = (case environ e k of None \<Rightarrow> [] | Some v \<Rightarrow> v)"
  by (simp add: var_def init_def)

lemma missing_var: "missing e k = test_z (var (init e) k)"
  by (simp add: missing_def var_init test_z_def split: option.splits)

lemma or_default_var:
  "or_default e k d = (if test_z (var (init e) k) then d else var (init e) k)"
  by (simp add: or_default_def var_init test_z_def split: option.splits)

lemma precondition_fails_iff: "precondition_fails e = (\<not> checks_pass e (init e))"
  by (auto simp: precondition_fails_def checks_pass_def required_vars_def required_tools_def missing_var)

subsection \<open>The checks at the top\<close>

lemma default_to_fields [simp]:
  "var (default_to k d m s) k' = (if k' = k \<and> test_z (var s k) then d else var s k')"
  "calls_of (trace (default_to k d m s)) = calls_of (trace s)"
  "reads_of (trace (default_to k d m s)) = reads_of (trace s)"
  "stdin (default_to k d m s) = stdin s" "backup_info (default_to k d m s) = backup_info s"
  "cl (default_to k d m s) = cl s" "pods (default_to k d m s) = pods s"
  "jobs (default_to k d m s) = jobs s"
  by (simp_all add: default_to_def)

lemma default_backup_bucket_fields [simp]:
  "var (default_backup_bucket s) k =
     (if k = ''MILVUS_BACKUP_BUCKET_NAME'' \<and> test_z (var s k)
      then var s ''MILVUS_BUCKET_NAME'' @ ''-backup'' else var s k)"
  "calls_of (trace (default_backup_bucket s)) = calls_of (trace s)"
  "reads_of (trace (default_backup_bucket s)) = reads_of (trace s)"
  "stdin (default_backup_bucket s) = stdin s"
  "backup_info (default_backup_bucket s) = backup_info s"
  "cl (default_backup_bucket s) = cl s" "pods (default_backup_bucket s) = pods s"
  "jobs (default_backup_bucket s) = jobs s"
  by (auto simp: default_backup_bucket_def Let_def)

lemma env_checks_cases:
  "(case env_checks e s of
      Exited n s' \<Rightarrow> n = 1 \<and> \<not> checks_pass e s
        \<and> calls_of (trace s') = calls_of (trace s) \<and> reads_of (trace s') = reads_of (trace s)
    | Running s' \<Rightarrow> checks_pass e s
        \<and> calls_of (trace s') = calls_of (trace s) \<and> reads_of (trace s') = reads_of (trace s)
        \<and> stdin s' = stdin s \<and> backup_info s' = backup_info s \<and> cl s' = cl s
        \<and> pods s' = pods s \<and> jobs s' = jobs s
        \<and> var s' ''AWS_REGION'' = (if test_z (var s ''AWS_REGION'') then ''eu-central-1'' else var s ''AWS_REGION'')
        \<and> var s' ''EKS_NAMESPACE'' = (if test_z (var s ''EKS_NAMESPACE'') then ''milvus'' else var s ''EKS_NAMESPACE''))"
  by (simp add: env_checks_def Let_def checks_pass_def)

lemma env_checks_pass:
  assumes "checks_pass e s"
  obtains s' where "env_checks e s = Running s'"
    "calls_of (trace s') = calls_of (trace s)" "reads_of (trace s') = reads_of (trace s)"
    "stdin s' = stdin s" "backup_info s' = backup_info s" "cl s' = cl s"
    "pods s' = pods s" "jobs s' = jobs s"
    "var s' ''AWS_REGION'' = (if test_z (var s ''AWS_REGION'') then ''eu-central-1'' else var s ''AWS_REGION'')"
    "var s' ''EKS_NAMESPACE'' = (if test_z (var s ''EKS_NAMESPACE'') then ''milvus'' else var s ''EKS_NAMESPACE'')"
  using env_checks_cases [of e s] assms by (cases "env_checks e s") simp_all

lemma env_checks_fail:
  assumes "\<not> checks_pass e s"
  obtains s' where "env_checks e s = Exited 1 s'"
    "calls_of (trace s') = calls_of (trace s)" "reads_of (trace s') = reads_of (trace s)"
  using env_checks_cases [of e s] assms by (cases "env_checks e s") simp_all

section \<open>Basic facts about the jobs\<close>

lemma py_print_fields [simp]:
  "milvus (py_print m c) = milvus c" "s3_exists (py_print m c) = s3_exists c"
  "s3_objects (py_print m c) = s3_objects c" "logs (py_print m c) = logs c @ [m]"
  by (simp_all add: py_print_def)

lemma then_py_simps [simp]:
  "then_py (Ok s) f = f s" "then_py (Raise e s) f = Raise e s" "then_py (SysExit n s) f = SysExit n s"
  by (simp_all add: then_py_def)

lemma is_exit_simps [simp]:
  "is_exit (Ok s) = False" "is_exit (Raise e s) = False" "is_exit (SysExit n s) = True"
  by (simp_all add: is_exit_def)

lemma is_exit_then_py: "\<not> is_exit r \<Longrightarrow> (\<And>s. \<not> is_exit (f s)) \<Longrightarrow> \<not> is_exit (then_py r f)"
  by (cases r) simp_all

lemma for_each_no_exit:
  "(\<And>x s. \<not> is_exit (body x s)) \<Longrightarrow> \<not> is_exit (for_each body xs s)"
  by (induction xs arbitrary: s) (simp_all add: is_exit_then_py)

subsection \<open>Connecting\<close>

lemma connect_from_Ok:
  "i < m \<Longrightarrow> \<exists>j. i \<le> j \<and> j < m \<and> ok j \<Longrightarrow>
     \<exists>c'. connect_from ok m r i c = Ok c' \<and> milvus c' = milvus c
          \<and> s3_exists c' = s3_exists c \<and> s3_objects c' = s3_objects c"
proof (induction ok m r i c rule: connect_from.induct)
  case (1 ok m r i c)
  show ?case
  proof (cases "ok i")
    case True
    then show ?thesis using "1.prems"(1) by (subst connect_from.simps) simp
  next
    case False
    from "1.prems"(2) obtain j where j: "i \<le> j" "j < m" "ok j" by blast
    with False have "i \<noteq> j" by auto
    with j have lt: "i + 1 < m" "i < m - 1" by auto
    then have ex: "\<exists>j. i + 1 \<le> j \<and> j < m \<and> ok j"
      using j \<open>i \<noteq> j\<close> by (intro exI [of _ j]) auto
    let ?c = "py_print (''Retrying in '' @ dec r @ '' seconds...'')
          (py_print (''Connection attempt '' @ dec (i + 1) @ ''/'' @ dec m @ '' failed: connection refused'') c)"
    have "\<exists>c'. connect_from ok m r (i + 1) ?c = Ok c' \<and> milvus c' = milvus ?c
          \<and> s3_exists c' = s3_exists ?c \<and> s3_objects c' = s3_objects ?c"
      using "1.IH" [OF "1.prems"(1) False refl lt(2) lt(1) ex] .
    then show ?thesis
      using False "1.prems"(1) lt by (subst connect_from.simps) (simp add: Let_def)
  qed
qed

lemma connect_from_Exit:
  "i < m \<Longrightarrow> \<forall>j. i \<le> j \<and> j < m \<longrightarrow> \<not> ok j \<Longrightarrow>
     \<exists>c'. connect_from ok m r i c = SysExit 1 c' \<and> milvus c' = milvus c
          \<and> s3_exists c' = s3_exists c \<and> s3_objects c' = s3_objects c"
proof (induction ok m r i c rule: connect_from.induct)
  case (1 ok m r i c)
  have False: "\<not> ok i" using "1.prems" by auto
  show ?case
  proof (cases "i < m - 1")
    case True
    then have lt: "i + 1 < m" by auto
    let ?c = "py_print (''Retrying in '' @ dec r @ '' seconds...'')
          (py_print (''Connection attempt '' @ dec (i + 1) @ ''/'' @ dec m @ '' failed: connection refused'') c)"
    have "\<exists>c'. connect_from ok m r (i + 1) ?c = SysExit 1 c' \<and> milvus c' = milvus ?c
          \<and> s3_exists c' = s3_exists ?c \<and> s3_objects c' = s3_objects ?c"
      using "1.IH" [OF "1.prems"(1) False refl True lt] "1.prems"(2) by auto
    then show ?thesis
      using False "1.prems"(1) True by (subst connect_from.simps) (simp add: Let_def)
  next
    case F: False
    then show ?thesis
      using False "1.prems"(1) by (subst connect_from.simps) (simp add: Let_def)
  qed
qed

lemma connects_iff: "connects ok = (\<exists>j<10. ok j)"
  by (auto simp: connects_def list_ex_iff)

lemma connect_retry_Ok:
  assumes "connects ok"
  obtains c' where "connect_retry ok c = Ok c'" "milvus c' = milvus c"
    "s3_exists c' = s3_exists c" "s3_objects c' = s3_objects c"
  using connect_from_Ok [of 0 10 ok 5 c] assms
  unfolding connect_retry_def connects_iff by auto

lemma connect_retry_Exit:
  assumes "\<not> connects ok"
  obtains c' where "connect_retry ok c = SysExit 1 c'" "milvus c' = milvus c"
    "s3_exists c' = s3_exists c" "s3_objects c' = s3_objects c"
  using connect_from_Exit [of 0 10 ok 5 c] assms
  unfolding connect_retry_def connects_iff by auto

section \<open>Properties of the endpoint wait loop\<close>

lemma ceil15_step: "(e::nat) < m \<Longrightarrow> (m - e + 14) div 15 = 1 + (m - (e + 15) + 14) div 15"
proof (cases "m - e < 15")
  case True
  assume "e < m"
  then have a: "15 \<le> m - e + 14" "m - e + 14 < 30" using True by simp_all
  have "(m - e + 14) div 15 = 1"
    using a by (simp add: div_nat_eqI)
  moreover have "m - (e + 15) = 0" using True by simp
  ultimately show ?thesis by simp
next
  case False
  then have "m - e + 14 = (m - (e + 15) + 14) + 15" by simp
  then show ?thesis by (simp only: div_add_self2)
qed

lemma wait_loop_never_ready:
  assumes "never_ready k"
  shows "fst (wait_loop k m s) = 1
       \<and> polls (snd (wait_loop k m s)) = polls s + (m - ELAPSED s + 14) div 15
       \<and> slept (snd (wait_loop k m s)) = slept s + 15 * ((m - ELAPSED s + 14) div 15)
       \<and> last (lb_out (snd (wait_loop k m s))) = ''Timed out waiting for LoadBalancer ('' @ dec m @ ''s)''"
  using assms
proof (induction k m s rule: wait_loop.induct)
  case (1 k m s)
  note nrk = \<open>never_ready k\<close>
  show ?case
  proof (cases "ELAPSED s < m")
    case False
    then show ?thesis
      by (simp add: wait_loop.simps [of k m s] lb_echo_def)
  next
    case True
    let ?ip = "k (polls s)"
    have nr: "(test_n ?ip \<and> ?ip \<noteq> ''<pending>'') = False"
      using nrk [unfolded never_ready_def, rule_format, of "polls s"]
      by (auto simp: test_n_def)
    let ?s' = "(lb_sleep 15
                 (lb_echo (''LoadBalancer still provisioning... ('' @ dec (ELAPSED s) @ ''s elapsed)'')
                    (s\<lparr>polls := polls s + 1\<rparr>)))\<lparr>ELAPSED := ELAPSED s + 15\<rparr>"
    have step: "wait_loop k m s = wait_loop k m ?s'"
      by (subst wait_loop.simps) (simp only: True if_True Let_def nr if_False, simp)
    have ih: "fst (wait_loop k m ?s') = 1
       \<and> polls (snd (wait_loop k m ?s')) = polls ?s' + (m - ELAPSED ?s' + 14) div 15
       \<and> slept (snd (wait_loop k m ?s')) = slept ?s' + 15 * ((m - ELAPSED ?s' + 14) div 15)
       \<and> last (lb_out (snd (wait_loop k m ?s'))) = ''Timed out waiting for LoadBalancer ('' @ dec m @ ''s)''"
      using "1.IH" [OF True refl refl _ nrk] nr by simp
    have e: "ELAPSED ?s' = ELAPSED s + 15" "polls ?s' = polls s + 1" "slept ?s' = slept s + 15"
      by (simp_all add: lb_sleep_def lb_echo_def)
    have d: "(m - ELAPSED s + 14) div 15 = 1 + (m - (ELAPSED s + 15) + 14) div 15"
      using True by (rule ceil15_step)
    show ?thesis
      unfolding step using ih by (simp only: e d) simp
  qed
qed

text \<open>
  C6. When the LoadBalancer endpoint never becomes available, \<^verbatim>\<open>wait_for_lb\<close> returns:
  it makes 600 / 15 = 40 polls, sleeps 15 seconds after each (600 seconds in all), prints
  the timeout message last and returns the failure status 1.
\<close>

theorem wait_for_lb_bounded:
  "never_ready k \<Longrightarrow>
     fst (wait_for_lb k) = 1
   \<and> polls (snd (wait_for_lb k)) = 40
   \<and> slept (snd (wait_for_lb k)) = 600
   \<and> last (lb_out (snd (wait_for_lb k))) = ''Timed out waiting for LoadBalancer (600s)''"
proof -
  assume nr: "never_ready k"
  have d: "dec 600 = ''600''"
    by (simp add: dec.simps digit_def)
  show ?thesis
    using wait_loop_never_ready [OF nr, of 600 lb_init] d
    by (simp add: wait_for_lb_def lb_init_def)
qed

theorem wait_for_lb_bounded_witness:
  "never_ready (\<lambda>i. ''<pending>'')
   \<and> fst (wait_for_lb (\<lambda>i. ''<pending>'')) = 1
   \<and> polls (snd (wait_for_lb (\<lambda>i. ''<pending>''))) = 40
   \<and> slept (snd (wait_for_lb (\<lambda>i. ''<pending>''))) = 600
   \<and> last (lb_out (snd (wait_for_lb (\<lambda>i. ''<pending>'')))) = ''Timed out waiting for LoadBalancer (600s)''"
proof -
  have h: "never_ready (\<lambda>i. ''<pending>'')"
    by (simp add: never_ready_def)
  show ?thesis
    using h wait_for_lb_bounded [OF h] by simp
qed

section \<open>Fatal precondition checks\<close>

text \<open>
  C7. If a required variable (\<^verbatim>\<open>EKS_CLUSTER_NAME\<close>, \<^verbatim>\<open>MILVUS_BUCKET_NAME\<close>,
  \<^verbatim>\<open>AWS_ACCESS_KEY_ID\<close>, \<^verbatim>\<open>AWS_SECRET_ACCESS_KEY\<close>) is unset or empty, or one of
  \<^verbatim>\<open>aws\<close>, \<^verbatim>\<open>kubectl\<close>, \<^verbatim>\<open>helm\<close> is not installed, the upgrade script exits with status 1
  and has run no external command and read no input. Otherwise the checks pass, with
  \<^verbatim>\<open>AWS_REGION\<close> and \<^verbatim>\<open>EKS_NAMESPACE\<close> set to \<^verbatim>\<open>eu-central-1\<close> and \<^verbatim>\<open>milvus\<close> where
  they were missing, and the script goes on.
\<close>

theorem fatal_prechecks:
  "(precondition_fails e \<longrightarrow>
      fst (upgrade_script e) = 1
      \<and> calls_of (trace (snd (upgrade_script e))) = []
      \<and> reads_of (trace (snd (upgrade_script e))) = [])
   \<and> (\<not> precondition_fails e \<longrightarrow>
      (\<exists>s. env_checks e (init e) = Running s
         \<and> var s ''AWS_REGION'' = or_default e ''AWS_REGION'' ''eu-central-1''
         \<and> var s ''EKS_NAMESPACE'' = or_default e ''EKS_NAMESPACE'' ''milvus''
         \<and> calls_of (trace s) = []))"
proof (intro conjI impI)
  assume "precondition_fails e"
  then have "\<not> checks_pass e (init e)"
    by (simp add: precondition_fails_iff)
  then obtain s' where r: "env_checks e (init e) = Exited 1 s'"
    and c: "calls_of (trace s') = calls_of (trace (init e))"
           "reads_of (trace s') = reads_of (trace (init e))"
    by (rule env_checks_fail)
  have u: "upgrade_script e = (1, s')"
    by (simp add: upgrade_script_def then_sh_def r)
  show "fst (upgrade_script e) = 1" by (simp add: u)
  show "calls_of (trace (snd (upgrade_script e))) = []" by (simp add: u c)
  show "reads_of (trace (snd (upgrade_script e))) = []" by (simp add: u c)
next
  assume "\<not> precondition_fails e"
  then have "checks_pass e (init e)"
    by (simp add: precondition_fails_iff)
  then obtain s' where "env_checks e (init e) = Running s'"
    "calls_of (trace s') = calls_of (trace (init e))"
    "var s' ''AWS_REGION'' = (if test_z (var (init e) ''AWS_REGION'') then ''eu-central-1'' else var (init e) ''AWS_REGION'')"
    "var s' ''EKS_NAMESPACE'' = (if test_z (var (init e) ''EKS_NAMESPACE'') then ''milvus'' else var (init e) ''EKS_NAMESPACE'')"
    by (rule env_checks_pass)
  then show "\<exists>s. env_checks e (init e) = Running s
         \<and> var s ''AWS_REGION'' = or_default e ''AWS_REGION'' ''eu-central-1''
         \<and> var s ''EKS_NAMESPACE'' = or_default e ''EKS_NAMESPACE'' ''milvus''
         \<and> calls_of (trace s) = []"
    by (simp add: or_default_var)
qed

theorem fatal_prechecks_witness:
  "precondition_fails (example_env\<lparr>environ := (environ example_env)(''EKS_CLUSTER_NAME'' := None)\<rparr>)
   \<and> fst (upgrade_script (example_env\<lparr>environ := (environ example_env)(''EKS_CLUSTER_NAME'' := None)\<rparr>)) = 1
   \<and> calls_of (trace (snd (upgrade_script (example_env\<lparr>environ := (environ example_env)(''EKS_CLUSTER_NAME'' := None)\<rparr>)))) = []
   \<and> \<not> precondition_fails example_env
   \<and> (\<exists>s. env_checks example_env (init example_env) = Running s
          \<and> var s ''AWS_REGION'' = ''eu-central-1'' \<and> var s ''EKS_NAMESPACE'' = ''milvus'')"
proof -
  let ?bad = "example_env\<lparr>environ := (environ example_env)(''EKS_CLUSTER_NAME'' := None)\<rparr>"
  have bad: "precondition_fails ?bad"
    by (simp add: precondition_fails_def required_vars_def missing_def example_env_def)
  have good: "\<not> precondition_fails example_env"
    by (simp add: precondition_fails_def required_vars_def required_tools_def missing_def
        command_v_def example_env_def)
  have d: "or_default example_env ''AWS_REGION'' ''eu-central-1'' = ''eu-central-1''"
    "or_default example_env ''EKS_NAMESPACE'' ''milvus'' = ''milvus''"
    by (simp_all add: or_default_def example_env_def)
  show ?thesis
    using fatal_prechecks [of ?bad] fatal_prechecks [of example_env] bad good
    by (simp only: d) blast
qed

section \<open>The confirmation gate\<close>

lemma banner_fields [simp]:
  "var (banner s) k = var s k" "calls_of (trace (banner s)) = calls_of (trace s)"
  "reads_of (trace (banner s)) = reads_of (trace s)" "stdin (banner s) = stdin s"
  "backup_info (banner s) = backup_info s" "cl (banner s) = cl s"
  "pods (banner s) = pods s" "jobs (banner s) = jobs s"
  by (simp_all add: banner_def)

lemma check_cluster_resources_fields [simp]:
  "var (check_cluster_resources e s) k = var s k"
  "calls_of (trace (check_cluster_resources e s)) =
     calls_of (trace s) @ [KubectlGet ''nodes'', KubectlGet ''nodes'',
                           KubectlGet ''storageclass'', KubectlGet ''storageclass'']"
  "reads_of (trace (check_cluster_resources e s)) = reads_of (trace s)"
  "stdin (check_cluster_resources e s) = stdin s"
  "backup_info (check_cluster_resources e s) = backup_info s"
  "cl (check_cluster_resources e s) = cl s"
  "pods (check_cluster_resources e s) = pods s" "jobs (check_cluster_resources e s) = jobs s"
  by (simp_all add: check_cluster_resources_def Let_def)

lemma confirm_prompt_fields [simp]:
  "var (confirm_prompt s) k = (if k = ''proceed'' then answer (stdin s) else var s k)"
  "calls_of (trace (confirm_prompt s)) = calls_of (trace s)"
  "reads_of (trace (confirm_prompt s)) = reads_of (trace s) @ [next_line (stdin s)]"
  "stdin (confirm_prompt s) = tl (stdin s)"
  "backup_info (confirm_prompt s) = backup_info s" "cl (confirm_prompt s) = cl s"
  "pods (confirm_prompt s) = pods s" "jobs (confirm_prompt s) = jobs s"
  by (simp_all add: confirm_prompt_def)

lemma confirm_prompt_trace:
  "\<exists>evs. trace (confirm_prompt s) = trace s @ evs @ [Read (next_line (stdin s))] \<and> reads_of evs = []"
  by (simp add: confirm_prompt_def)

lemma check_cluster_resources_trace:
  "\<exists>evs. trace (check_cluster_resources e s) = trace s @ evs \<and> reads_of evs = []"
  by (simp add: check_cluster_resources_def Let_def)

lemma banner_trace: "\<exists>evs. trace (banner s) = trace s @ evs \<and> reads_of evs = []"
  by (simp add: banner_def)

text \<open>The state in which the operator has been asked, for a run that passed the checks.\<close>

lemma after_read_prompt:
  assumes "reads_of (trace s) = []"
  shows "after_read (trace (confirm_prompt (check_cluster_resources e (banner s))) @ evs) = evs"
proof -
  obtain b where b: "trace (banner s) = trace s @ b" "reads_of b = []"
    using banner_trace by blast
  obtain c where c: "trace (check_cluster_resources e (banner s)) = trace (banner s) @ c"
      "reads_of c = []"
    using check_cluster_resources_trace by blast
  obtain p where p: "trace (confirm_prompt (check_cluster_resources e (banner s)))
      = trace (check_cluster_resources e (banner s)) @ p
        @ [Read (next_line (stdin (check_cluster_resources e (banner s))))]"
      "reads_of p = []"
    using confirm_prompt_trace by blast
  have "reads_of (trace s @ b @ c @ p) = []"
    using assms b c p by simp
  then have "after_read ((trace s @ b @ c @ p) @ (Read (next_line (stdin s)) # evs)) = after_read (Read (next_line (stdin s)) # evs)"
    by (rule after_read_no_read)
  then show ?thesis
    using b c p by simp
qed

section \<open>The restore of field types\<close>

text \<open>
  C1, on the concrete case of the specification. The keys of \<^verbatim>\<open>dtype_map\<close> are tried in
  the order of the literal with a substring test, and \<^verbatim>\<open>DataType.FLOAT\<close>, which comes
  before \<^verbatim>\<open>DataType.FLOAT_VECTOR\<close>, is a substring of it. So the field \<^verbatim>\<open>vec\<close> of the
  schema document is rebuilt as a FLOAT field without a dimension; and backing up a
  database that holds \<^verbatim>\<open>docs\<close> and restoring into an empty one gives a \<^verbatim>\<open>docs\<close> whose
  fields are not those that were backed up.
\<close>

theorem roundtrip_docs_float_vector:
  "convert_fields (sd_fields docs_schema_json) =
     Inr [\<lparr>fs_name = ''id'', fs_dtype = INT64, fs_is_primary = True, fs_description = [],
           fs_auto_id = False, fs_params = []\<rparr>,
          \<lparr>fs_name = ''vec'', fs_dtype = FLOAT, fs_is_primary = False, fs_description = [],
           fs_auto_id = False, fs_params = []\<rparr>]
   \<and> milvus (snd (restore_py ''backup-20240101120000'' (\<lambda>i. True)
                ((snd (backup_py ''20240101120000'' (\<lambda>i. True) docs_cluster))\<lparr>milvus := []\<rparr>)))
     = [(''docs'',
         \<lparr>col_schema =
            \<lparr>cs_description = [],
             cs_fields =
               [\<lparr>fs_name = ''id'', fs_dtype = INT64, fs_is_primary = True, fs_description = [],
                 fs_auto_id = False, fs_params = []\<rparr>,
                \<lparr>fs_name = ''vec'', fs_dtype = FLOAT, fs_is_primary = False, fs_description = [],
                 fs_auto_id = False, fs_params = []\<rparr>]\<rparr>,
          col_indexes = []\<rparr>)]
   \<and> lookup_dtype dtype_map ''DataType.FLOAT_VECTOR'' = Some FLOAT"
  by code_simp

text \<open>
  C2, on a backup whose first collection has a field of type DOUBLE. Reporting the unknown
  type raises \<^verbatim>\<open>KeyError\<close> (see the restore job above); the handler around the whole loop
  catches it, so the program ends, with exit code 0, having restored neither that
  collection nor the one after it, and without the warning.
\<close>

theorem restore_unknown_type_aborts:
  "restore_py ''backup-20240101120000'' (\<lambda>i. True) audit_backup =
     (0, audit_backup
           \<lparr>logs := [''Waiting for Milvus to be ready...'', ''Connected to Milvus'',
                     ''Processing collection: audit'',
                     ''Error during restoration: '' @ type_repr]\<rparr>)
   \<and> convert_fields (sd_fields audit_schema_json) = Inl (KeyError type_repr)
   \<and> map fst (manifest ''backup-20240101120000'' audit_backup) = [''audit'', ''docs'']"
  by code_simp

section \<open>The exit status of the restore job\<close>

lemma Collection_no_exit: "\<not> is_exit (Collection n schema c)"
  by (simp add: Collection_def split: option.splits)

lemma create_index_no_exit: "\<not> is_exit (create_index n ix c)"
  by (simp add: create_index_def split: option.splits)

lemma restore_indexes_no_exit: "\<not> is_exit (restore_indexes n paths c)"
  by (simp add: restore_indexes_def create_one_index_def for_each_no_exit create_index_no_exit
      split: option.splits s3_object.splits)

lemma restore_collection_no_exit: "\<not> is_exit (restore_collection item c)"
  by (simp add: restore_collection_def Let_def is_exit_then_py Collection_no_exit restore_indexes_no_exit
      split: option.splits s3_object.splits sum.splits)

lemma for_each_restore_no_exit: "for_each restore_collection xs s \<noteq> SysExit n c'"
  using for_each_no_exit [of restore_collection xs s, OF restore_collection_no_exit]
  by (cases "for_each restore_collection xs s") auto

lemma restore_body_exit: "restore_body path c = SysExit n c' \<Longrightarrow> n = 0"
  by (auto simp: restore_body_def then_py_def for_each_restore_no_exit
      split: option.splits if_splits py.splits)

lemma restore_py_exit_code: "fst (restore_py path ok c) = (if connects ok then 0 else 1)"
proof (cases "connects ok")
  case True
  then obtain c1 where c1: "connect_retry ok (py_print ''Waiting for Milvus to be ready...'' c) = Ok c1"
    by (rule connect_retry_Ok)
  show ?thesis
    using True restore_body_exit [of path c1]
    by (simp add: restore_py_def c1 split: py.splits)
next
  case False
  then obtain c1 where c1: "connect_retry ok (py_print ''Waiting for Milvus to be ready...'' c) = SysExit 1 c1"
    by (rule connect_retry_Exit)
  show ?thesis
    using False by (simp add: restore_py_def c1)
qed

lemma run_pods_success:
  assumes "\<And>p c. (fst (prog p c) = 0) = good p"
  shows "fst (run_pods n prog p0 c) = (\<exists>k<n. good (p0 + k))"
proof (induction n arbitrary: p0 c)
  case 0
  then show ?case by simp
next
  case (Suc n)
  show ?case
  proof (cases "good p0")
    case True
    then have "fst (prog p0 c) = 0" using assms by simp
    then show ?thesis using True by (auto simp: split: prod.splits)
  next
    case False
    then have ne: "fst (prog p0 c) \<noteq> 0" using assms by simp
    have "(\<exists>k<Suc n. good (p0 + k)) = (\<exists>k<n. good (Suc p0 + k))"
      using False by (metis add_Suc_shift less_Suc_eq_0_disj add_0_right)
    then show ?thesis using ne Suc.IH [of "Suc p0"] by (auto split: prod.splits)
  qed
qed

lemma job_connects_iff: "job_connects e p0 = (\<exists>k<4. connects (connect_ok e (p0 + k)))"
  by (auto simp: job_connects_def list_ex_iff)

lemma restore_job_succeeds:
  "fst (run_pods 4 (\<lambda>p. restore_py path (connect_ok e p)) p0 c) = job_connects e p0"
  using run_pods_success [of "\<lambda>p. restore_py path (connect_ok e p)" "\<lambda>p. connects (connect_ok e p)" 4 p0 c]
  by (simp add: restore_py_exit_code job_connects_iff)


lemma restore_data_skipped:
  "backup_info s = None \<Longrightarrow>
     restore_data e s = echo ''No backup information found. Skipping restoration.'' s"
  by (simp add: restore_data_def)

lemma restore_data_connected:
  assumes "backup_info s = Some path" and "job_connects e (pods s)"
  shows "job_succeeded ''milvus-restore'' (restore_data e s)
       \<and> (\<exists>evs. trace (restore_data e s)
                  = trace s @ evs @ [Echo ''Restoration completed successfully'', Echo []])"
proof -
  have j: "job_succeeded ''milvus-restore''
             (kubectl_apply_job ''milvus-restore-job.yaml'' ''milvus-restore''
                (\<lambda>p. restore_py path (connect_ok e p)) s')" if "pods s' = pods s" for s'
    using assms(2) that by (simp add: job_succeeded_def restore_job_succeeds update_conv')
  show ?thesis
    using assms(1) j by (simp add: restore_data_def Let_def job_succeeded_def)
qed

lemma run_pods_first:
  assumes "fst (prog p c) = 0"
  shows "run_pods 4 prog p c = (True, Suc p, snd (prog p c))"
proof -
  have "run_pods (Suc 3) prog p c = (True, Suc p, snd (prog p c))"
    using assms by (cases "prog p c") (simp del: Suc_numeral)
  then show ?thesis by simp
qed

lemma restore_data_cl:
  assumes "backup_info s = Some path" and "connects (connect_ok e (pods s))"
  shows "cl (restore_data e s) = snd (restore_py path (connect_ok e (pods s)) (cl s))"
proof -
  have "fst (restore_py path (connect_ok e (pods s)) (cl s)) = 0"
    using assms(2) by (simp add: restore_py_exit_code)
  then have "run_pods 4 (\<lambda>p. restore_py path (connect_ok e p)) (pods s) (cl s)
      = (True, Suc (pods s), snd (restore_py path (connect_ok e (pods s)) (cl s)))"
    by (rule run_pods_first)
  then show ?thesis
    using assms(1) by (simp add: restore_data_def Let_def)
qed

text \<open>
  C10. Once a pod of the restore job has connected, the Python program exits with code 0
  whatever happens in the listing and the loop (the handler around them only prints), so
  the job has succeeded and \<^verbatim>\<open>restore_data\<close> prints
  \<^verbatim>\<open>Restoration completed successfully\<close>, whatever the bucket and the database hold. And
  when \<^verbatim>\<open>milvus-backup-info.env\<close> is absent, \<^verbatim>\<open>restore_data\<close> only prints that it skips the
  restoration: no command is run and no job is submitted.
\<close>

theorem restore_reports_success:
  "(connects ok \<longrightarrow> fst (restore_py path ok c) = 0)
   \<and> (backup_info s \<noteq> None \<and> job_connects e (pods s) \<longrightarrow>
        job_succeeded ''milvus-restore'' (restore_data e s)
        \<and> (\<exists>evs. trace (restore_data e s)
                   = trace s @ evs @ [Echo ''Restoration completed successfully'', Echo []]))
   \<and> (backup_info s = None \<longrightarrow>
        restore_data e s = echo ''No backup information found. Skipping restoration.'' s
        \<and> calls_of (trace (restore_data e s)) = calls_of (trace s)
        \<and> jobs (restore_data e s) = jobs s \<and> cl (restore_data e s) = cl s)"
proof (intro conjI impI)
  assume "connects ok"
  then show "fst (restore_py path ok c) = 0"
    by (simp add: restore_py_exit_code)
next
  assume a: "backup_info s \<noteq> None \<and> job_connects e (pods s)"
  then obtain p where "backup_info s = Some p" by auto
  with a show "job_succeeded ''milvus-restore'' (restore_data e s)"
    and "\<exists>evs. trace (restore_data e s)
                = trace s @ evs @ [Echo ''Restoration completed successfully'', Echo []]"
    using restore_data_connected [of s p e] by simp_all
next
  assume n: "backup_info s = None"
  then show "restore_data e s = echo ''No backup information found. Skipping restoration.'' s"
    by (rule restore_data_skipped)
  then show "calls_of (trace (restore_data e s)) = calls_of (trace s)"
    and "jobs (restore_data e s) = jobs s" and "cl (restore_data e s) = cl s"
    by simp_all
qed

theorem restore_reports_success_witness:
  "connects (\<lambda>i. True)
   \<and> fst (restore_py ''backup-20240101120000'' (\<lambda>i. True) audit_backup) = 0
   \<and> backup_info audit_state \<noteq> None \<and> job_connects example_env (pods audit_state)
   \<and> job_succeeded ''milvus-restore'' (restore_data example_env audit_state)
   \<and> milvus (cl (restore_data example_env audit_state)) = []
   \<and> backup_info no_backup_state = None
   \<and> jobs (restore_data example_env no_backup_state) = jobs no_backup_state"
proof -
  have h1: "connects (\<lambda>i. True)"
    unfolding connects_iff by (rule exI [of _ 0]) simp
  have "job_connects example_env (pods audit_state)"
    unfolding job_connects_iff connects_iff
    by (rule exI [of _ 0], simp, rule exI [of _ 0], simp add: example_env_def)
  then have h2: "backup_info audit_state \<noteq> None \<and> job_connects example_env (pods audit_state)"
    by (simp add: audit_state_def)
  have h3: "backup_info no_backup_state = None"
    by (simp add: no_backup_state_def)
  have ev: "backup_info audit_state = Some ''backup-20240101120000''" "cl audit_state = audit_backup"
    "connect_ok example_env (pods audit_state) = (\<lambda>i. True)"
    by (simp_all add: audit_state_def example_env_def)
  have py: "milvus (snd (restore_py ''backup-20240101120000'' (\<lambda>i. True) audit_backup)) = []"
    by code_simp
  have h4: "milvus (cl (restore_data example_env audit_state)) = []"
    using restore_data_cl [of audit_state "''backup-20240101120000''" example_env] h1 py
    by (simp add: ev)
  show ?thesis
    using restore_reports_success [of "\<lambda>i. True" "''backup-20240101120000''" audit_backup audit_state example_env]
      restore_reports_success [of "\<lambda>i. True" "''backup-20240101120000''" audit_backup no_backup_state example_env]
      h1 h2 h3 h4
    by blast
qed

section \<open>The stages after the confirmation\<close>

lemma submit_backup_fields [simp]:
  "var (submit_backup e s) k = (if k = ''TIMESTAMP'' then date_fmt (now e) else var s k)"
  "stdin (submit_backup e s) = stdin s" "backup_info (submit_backup e s) = backup_info s"
  by (simp_all add: submit_backup_def Let_def)

lemma submit_backup_trace:
  "\<exists>evs. trace (submit_backup e s) = trace s @ evs \<and> reads_of evs = []
         \<and> HelmUpgrade \<notin> set (calls_of evs)
         \<and> KubectlApply ''milvus-backup-job.yaml'' \<in> set (calls_of evs)"
  by (simp add: submit_backup_def Let_def)

lemma upgrade_to_cluster_fields [simp]:
  "var (upgrade_to_cluster e s) k = var s k"
  "stdin (upgrade_to_cluster e s) = stdin s" "backup_info (upgrade_to_cluster e s) = backup_info s"
  "jobs (upgrade_to_cluster e s) = jobs s" "pods (upgrade_to_cluster e s) = pods s"
  by (simp_all add: upgrade_to_cluster_def Let_def var_def run_def echo_def)

lemma upgrade_to_cluster_trace:
  "\<exists>evs. trace (upgrade_to_cluster e s) = trace s @ evs \<and> reads_of evs = []
         \<and> HelmUpgrade \<in> set (calls_of evs)"
  by (simp add: upgrade_to_cluster_def Let_def run_def echo_def)

lemma restore_data_trace:
  "\<exists>evs. trace (restore_data e s) = trace s @ evs \<and> reads_of evs = []"
  by (simp add: restore_data_def Let_def split: option.splits)

lemma restore_data_jobs:
  "k \<noteq> ''milvus-restore'' \<Longrightarrow> map_of (jobs (restore_data e s)) k = map_of (jobs s) k"
  by (simp add: restore_data_def Let_def update_conv' split: option.splits)

lemma verify_deployment_fields [simp]:
  "jobs (verify_deployment e s) = jobs s"
  by (simp_all add: verify_deployment_def Let_def)

lemma verify_deployment_trace:
  "\<exists>evs. trace (verify_deployment e s) = trace s @ evs \<and> reads_of evs = []"
  by (simp add: verify_deployment_def Let_def)

lemma closing_fields [simp]:
  "jobs (closing s) = jobs s"
  by (simp_all add: closing_def)

lemma closing_trace:
  "\<exists>evs. trace (closing s) = trace s @ evs \<and> reads_of evs = []"
  by (simp add: closing_def)


lemma backup_name_not_restore: "''milvus-backup-'' @ ts \<noteq> ''milvus-restore''"
  by simp

lemma job_succeeded_run_echo [simp]:
  "job_succeeded k (run c s) = job_succeeded k s" "job_succeeded k (echo m s) = job_succeeded k s"
  "job_succeeded k (read_r v s) = job_succeeded k s"
  by (simp_all add: job_succeeded_def)

lemma create_backup_succeeded:
  assumes "job_succeeded (''milvus-backup-'' @ date_fmt (now e)) (submit_backup e s)"
  shows "\<exists>sb. create_backup e s = Running sb \<and> jobs sb = jobs (submit_backup e s)"
  using assms by (simp add: create_backup_def Let_def backup_job_name_def)

lemma create_backup_failed:
  assumes "\<not> job_succeeded (''milvus-backup-'' @ date_fmt (now e)) (submit_backup e s)"
  shows "\<exists>evs s9. reads_of evs = [] \<and> HelmUpgrade \<notin> set (calls_of evs)
           \<and> trace s9 = trace s @ evs @ [Echo ''Do you want to continue with the upgrade anyway? (y/N)'',
                                          Read (next_line (stdin s))]
           \<and> jobs s9 = jobs (submit_backup e s)
           \<and> create_backup e s = (if matches_Yy (answer (stdin s)) then Running (echo [] s9)
                                   else Exited 1 (echo ''Upgrade aborted.'' s9))"
proof -
  obtain evs where evs: "trace (submit_backup e s) = trace s @ evs" "reads_of evs = []"
      "HelmUpgrade \<notin> set (calls_of evs)"
    using submit_backup_trace by blast
  let ?s7 = "run (KubectlGet (''job '' @ backup_job_name (submit_backup e s))) (submit_backup e s)"
  let ?s8 = "run (KubectlLogs (''job/'' @ backup_job_name ?s7)) (echo ''Backup failed. Check job logs:'' ?s7)"
  let ?s9 = "read_r ''continue_anyway'' (echo ''Do you want to continue with the upgrade anyway? (y/N)'' ?s8)"
  let ?evs = "evs @ [Call (KubectlGet (''job '' @ backup_job_name (submit_backup e s))),
                     Echo ''Backup failed. Check job logs:'',
                     Call (KubectlLogs (''job/'' @ backup_job_name ?s7))]"
  have 1: "reads_of ?evs = []" "HelmUpgrade \<notin> set (calls_of ?evs)"
    using evs by simp_all
  have 2: "trace ?s9 = trace s @ ?evs @ [Echo ''Do you want to continue with the upgrade anyway? (y/N)'',
                                          Read (next_line (stdin s))]"
    using evs(1) by simp
  have 3: "jobs ?s9 = jobs (submit_backup e s)"
    by simp
  have 4: "create_backup e s = (if matches_Yy (answer (stdin s)) then Running (echo [] ?s9)
                                   else Exited 1 (echo ''Upgrade aborted.'' ?s9))"
    using assms by (simp add: create_backup_def Let_def backup_job_name_def)
  show ?thesis
    using 1 2 3 4 by blast
qed

lemma later_stages:
  "\<exists>evs. trace (closing (verify_deployment e (restore_data e (upgrade_to_cluster e s)))) = trace s @ evs
         \<and> reads_of evs = [] \<and> HelmUpgrade \<in> set (calls_of evs)"
proof -
  obtain a where a: "trace (upgrade_to_cluster e s) = trace s @ a" "reads_of a = []"
      "HelmUpgrade \<in> set (calls_of a)"
    using upgrade_to_cluster_trace by blast
  obtain b where b: "trace (restore_data e (upgrade_to_cluster e s)) = trace (upgrade_to_cluster e s) @ b"
      "reads_of b = []"
    using restore_data_trace by blast
  obtain c where c: "trace (verify_deployment e (restore_data e (upgrade_to_cluster e s)))
        = trace (restore_data e (upgrade_to_cluster e s)) @ c" "reads_of c = []"
    using verify_deployment_trace by blast
  obtain d where d: "trace (closing (verify_deployment e (restore_data e (upgrade_to_cluster e s))))
        = trace (verify_deployment e (restore_data e (upgrade_to_cluster e s))) @ d" "reads_of d = []"
    using closing_trace by blast
  show ?thesis
    by (rule exI [of _ "a @ b @ c @ d"]) (simp add: a b c d)
qed

lemma later_stages_jobs:
  "k \<noteq> ''milvus-restore'' \<Longrightarrow>
     job_succeeded k (closing (verify_deployment e (restore_data e (upgrade_to_cluster e s))))
       = job_succeeded k s"
  by (simp add: job_succeeded_def restore_data_jobs)

lemma upload_file_cases: "(\<exists>c'. upload_file k obj c = Ok c') \<or> (\<exists>x c'. upload_file k obj c = Raise x c')"
  by (simp add: upload_file_def)

lemma backup_collection_cases:
  "(\<exists>c'. backup_collection ts n c = Ok c') \<or> (\<exists>x c'. backup_collection ts n c = Raise x c')"
  by (auto simp: backup_collection_def upload_file_def Let_def split: option.splits)

lemma backup_step_Ok: "\<exists>c'. backup_step ts n c = Ok c'"
  using backup_collection_cases [of ts n "py_print (''Backing up collection: '' @ n) c"]
  by (auto simp: backup_step_def)

lemma for_each_backup_Ok: "\<exists>c'. for_each (backup_step ts) xs c = Ok c'"
proof (induction xs arbitrary: c)
  case Nil
  then show ?case by simp
next
  case (Cons x xs)
  obtain c1 where "backup_step ts x c = Ok c1"
    using backup_step_Ok by blast
  then show ?case using Cons.IH [of c1] by simp
qed

lemma backup_py_exit_code: "fst (backup_py ts ok c) = (if connects ok then 0 else 1)"
proof (cases "connects ok")
  case True
  then obtain c1 where c1: "connect_retry ok c = Ok c1"
    by (rule connect_retry_Ok)
  obtain c3 where "for_each (backup_step ts) (list_collections c1)
      (py_print (''Collections to backup: '' @ py_list_str (list_collections c1)) c1) = Ok c3"
    using for_each_backup_Ok by blast
  then show ?thesis
    using True by (simp add: backup_py_def c1 Let_def)
next
  case False
  then obtain c1 where c1: "connect_retry ok c = SysExit 1 c1"
    by (rule connect_retry_Exit)
  show ?thesis
    using False by (simp add: backup_py_def c1)
qed

lemma backup_job_succeeds:
  "fst (run_pods 4 (\<lambda>p. backup_py ts (connect_ok e p)) p0 c) = job_connects e p0"
  using run_pods_success [of "\<lambda>p. backup_py ts (connect_ok e p)" "\<lambda>p. connects (connect_ok e p)" 4 p0 c]
  by (simp add: backup_py_exit_code job_connects_iff)

lemma submit_backup_job:
  "job_succeeded (''milvus-backup-'' @ date_fmt (now e)) (submit_backup e s) = job_connects e (pods s)"
  by (simp add: submit_backup_def Let_def backup_job_name_def job_succeeded_def update_conv'
      backup_job_succeeds)

text \<open>Whatever the backup job does, a confirmed run has submitted it.\<close>

lemma create_backup_trace:
  "\<exists>evs. trace (case create_backup e s of Running sb \<Rightarrow> sb | Exited n sb \<Rightarrow> sb) = trace s @ evs
         \<and> KubectlApply ''milvus-backup-job.yaml'' \<in> set (calls_of evs)"
proof -
  obtain evs where evs: "trace (submit_backup e s) = trace s @ evs"
      "KubectlApply ''milvus-backup-job.yaml'' \<in> set (calls_of evs)"
    using submit_backup_trace by blast
  show ?thesis
    using evs by (simp add: create_backup_def Let_def)
qed

lemma confirmed_run_submits:
  assumes "\<not> precondition_fails e" and "matches_Yy (answer (stdin_lines e))"
  shows "KubectlApply ''milvus-backup-job.yaml''
           \<in> set (calls_of (after_read (trace (snd (upgrade_script e)))))"
proof -
  from assms(1) have "checks_pass e (init e)"
    by (simp add: precondition_fails_iff)
  then obtain s1 where s1: "env_checks e (init e) = Running s1"
    "reads_of (trace s1) = reads_of (trace (init e))" "stdin s1 = stdin (init e)"
    by (rule env_checks_pass)
  let ?p = "confirm_prompt (check_cluster_resources e (banner s1))"
  have yes: "matches_Yy (var ?p ''proceed'')"
    using assms(2) s1(3) by simp
  have u: "upgrade_script e = (case upgrade_process e ?p of Exited n s \<Rightarrow> (n, s) | Running s \<Rightarrow> (0, s))"
    using yes by (simp add: upgrade_script_def then_sh_def s1(1) main_flow_def Let_def)
  have r: "reads_of (trace s1) = []"
    using s1(2) by simp
  obtain evs where evs: "trace (case create_backup e ?p of Running sb \<Rightarrow> sb | Exited n sb \<Rightarrow> sb) = trace ?p @ evs"
      "KubectlApply ''milvus-backup-job.yaml'' \<in> set (calls_of evs)"
    using create_backup_trace by blast
  show ?thesis
  proof (cases "create_backup e ?p")
    case (Running sb)
    let ?f = "closing (verify_deployment e (restore_data e (upgrade_to_cluster e sb)))"
    obtain l where l: "trace ?f = trace sb @ l"
      using later_stages by blast
    have "trace ?f = trace ?p @ (evs @ l)"
      using evs(1) l by (simp add: Running)
    then have "after_read (trace ?f) = evs @ l"
      using after_read_prompt [OF r] by simp
    moreover have "upgrade_script e = (0, ?f)"
      by (simp add: u upgrade_process_def then_sh_def Running)
    ultimately show ?thesis
      using evs(2) by simp
  next
    case (Exited n sb)
    have "trace sb = trace ?p @ evs"
      using evs(1) by (simp add: Exited)
    then have "after_read (trace sb) = evs"
      using after_read_prompt [OF r] by simp
    moreover have "upgrade_script e = (n, sb)"
      by (simp add: u upgrade_process_def then_sh_def Exited)
    ultimately show ?thesis
      using evs(2) by simp
  qed
qed

text \<open>When the backup job succeeds, a confirmed run goes on to the upgrade.\<close>

lemma confirmed_run_upgrades:
  assumes "\<not> precondition_fails e" and "matches_Yy (answer (stdin_lines e))"
    and "job_connects e 0"
  shows "HelmUpgrade \<in> set (calls_of (after_read (trace (snd (upgrade_script e)))))"
proof -
  from assms(1) have "checks_pass e (init e)"
    by (simp add: precondition_fails_iff)
  then obtain s1 where s1: "env_checks e (init e) = Running s1"
    "reads_of (trace s1) = reads_of (trace (init e))" "stdin s1 = stdin (init e)"
    "pods s1 = pods (init e)"
    by (rule env_checks_pass)
  let ?p = "confirm_prompt (check_cluster_resources e (banner s1))"
  have yes: "matches_Yy (var ?p ''proceed'')"
    using assms(2) s1(3) by simp
  have u: "upgrade_script e = (case upgrade_process e ?p of Exited n s \<Rightarrow> (n, s) | Running s \<Rightarrow> (0, s))"
    using yes by (simp add: upgrade_script_def then_sh_def s1(1) main_flow_def Let_def)
  have r: "reads_of (trace s1) = []"
    using s1(2) by simp
  have "job_succeeded (''milvus-backup-'' @ date_fmt (now e)) (submit_backup e ?p)"
    using assms(3) s1(4) submit_backup_job [of e ?p] by simp
  then obtain sb where sb: "create_backup e ?p = Running sb"
    using create_backup_succeeded by blast
  obtain evs where evs: "trace (case create_backup e ?p of Running sb \<Rightarrow> sb | Exited n sb \<Rightarrow> sb) = trace ?p @ evs"
    using create_backup_trace by blast
  let ?f = "closing (verify_deployment e (restore_data e (upgrade_to_cluster e sb)))"
  obtain l where l: "trace ?f = trace sb @ l" "HelmUpgrade \<in> set (calls_of l)"
    using later_stages by blast
  have "trace ?f = trace ?p @ (evs @ l)"
    using evs l(1) by (simp add: sb)
  then have "after_read (trace ?f) = evs @ l"
    using after_read_prompt [OF r] by simp
  moreover have "upgrade_script e = (0, ?f)"
    by (simp add: u upgrade_process_def then_sh_def sb)
  ultimately show ?thesis
    using l(2) by simp
qed

lemma final_backup_job_status:
  assumes "\<not> precondition_fails e" and "matches_Yy (answer (stdin_lines e))"
  shows "job_succeeded (''milvus-backup-'' @ date_fmt (now e)) (snd (upgrade_script e)) = job_connects e 0"
proof -
  let ?b = "''milvus-backup-'' @ date_fmt (now e)"
  have nb: "?b \<noteq> ''milvus-restore''" by simp
  from assms(1) have "checks_pass e (init e)"
    by (simp add: precondition_fails_iff)
  then obtain s1 where s1: "env_checks e (init e) = Running s1" "stdin s1 = stdin (init e)"
     "pods s1 = pods (init e)"
    by (rule env_checks_pass)
  let ?p = "confirm_prompt (check_cluster_resources e (banner s1))"
  have yes: "matches_Yy (var ?p ''proceed'')"
    using assms(2) s1(2) by simp
  have u: "upgrade_script e = (case upgrade_process e ?p of Exited n s \<Rightarrow> (n, s) | Running s \<Rightarrow> (0, s))"
    using yes by (simp add: upgrade_script_def then_sh_def s1(1) main_flow_def Let_def)
  have j: "job_succeeded ?b (submit_backup e ?p) = job_connects e 0"
    using s1(3) submit_backup_job [of e ?p] by simp
  show ?thesis
  proof (cases "job_succeeded ?b (submit_backup e ?p)")
    case True
    then obtain sb where sb: "create_backup e ?p = Running sb" "jobs sb = jobs (submit_backup e ?p)"
      using create_backup_succeeded by blast
    let ?f = "closing (verify_deployment e (restore_data e (upgrade_to_cluster e sb)))"
    have "upgrade_script e = (0, ?f)"
      by (simp add: u upgrade_process_def then_sh_def sb(1))
    moreover have "job_succeeded ?b ?f"
      using True sb(2) later_stages_jobs [OF nb, of e sb] by (simp add: job_succeeded_def)
    ultimately show ?thesis
      using True j by simp
  next
    case False
    then obtain evs s9 where f: "jobs s9 = jobs (submit_backup e ?p)"
        "create_backup e ?p = (if matches_Yy (answer (stdin ?p)) then Running (echo [] s9)
                                   else Exited 1 (echo ''Upgrade aborted.'' s9))"
      using create_backup_failed [of e ?p] by blast
    have "job_succeeded ?b (snd (upgrade_script e)) = job_succeeded ?b s9"
      using later_stages_jobs [OF nb, of e "echo [] s9"]
      by (simp add: u upgrade_process_def then_sh_def f(2))
    then show ?thesis
      using f(1) j by (simp add: job_succeeded_def)
  qed
qed

text \<open>
  The gate after a failed backup: in a confirmed run whose backup job cannot connect, the
  operator is asked, a second line is read, and its answer decides.
\<close>

lemma backup_failure_gate:
  assumes "\<not> precondition_fails e" and "matches_Yy (answer (stdin_lines e))"
    and "\<not> job_connects e 0"
  shows "Echo ''Do you want to continue with the upgrade anyway? (y/N)'' \<in> set (trace (snd (upgrade_script e)))
       \<and> reads_of (trace (snd (upgrade_script e))) = [next_line (stdin_lines e), next_line (tl (stdin_lines e))]
       \<and> (matches_Yy (answer (tl (stdin_lines e))) \<longrightarrow>
            fst (upgrade_script e) = 0 \<and> HelmUpgrade \<in> set (calls_of (trace (snd (upgrade_script e)))))
       \<and> (\<not> matches_Yy (answer (tl (stdin_lines e))) \<longrightarrow>
            fst (upgrade_script e) = 1 \<and> HelmUpgrade \<notin> set (calls_of (trace (snd (upgrade_script e))))
            \<and> last (trace (snd (upgrade_script e))) = Echo ''Upgrade aborted.'')"
proof -
  from assms(1) have "checks_pass e (init e)"
    by (simp add: precondition_fails_iff)
  then obtain s1 where s1: "env_checks e (init e) = Running s1"
    "calls_of (trace s1) = calls_of (trace (init e))" "reads_of (trace s1) = reads_of (trace (init e))"
    "stdin s1 = stdin (init e)" "pods s1 = pods (init e)"
    by (rule env_checks_pass)
  let ?p = "confirm_prompt (check_cluster_resources e (banner s1))"
  have yes: "matches_Yy (var ?p ''proceed'')"
    using assms(2) s1(4) by simp
  have u: "upgrade_script e = (case upgrade_process e ?p of Exited n s \<Rightarrow> (n, s) | Running s \<Rightarrow> (0, s))"
    using yes by (simp add: upgrade_script_def then_sh_def s1(1) main_flow_def Let_def)
  have p: "reads_of (trace ?p) = [next_line (stdin_lines e)]" "stdin ?p = tl (stdin_lines e)"
    "HelmUpgrade \<notin> set (calls_of (trace ?p))"
    using s1 by simp_all
  have "\<not> job_succeeded (''milvus-backup-'' @ date_fmt (now e)) (submit_backup e ?p)"
    using assms(3) s1(5) submit_backup_job [of e ?p] by simp
  then obtain evs s9 where f: "reads_of evs = []" "HelmUpgrade \<notin> set (calls_of evs)"
      "trace s9 = trace ?p @ evs @ [Echo ''Do you want to continue with the upgrade anyway? (y/N)'',
                                     Read (next_line (stdin ?p))]"
      "create_backup e ?p = (if matches_Yy (answer (stdin ?p)) then Running (echo [] s9)
                                 else Exited 1 (echo ''Upgrade aborted.'' s9))"
    using create_backup_failed [of e ?p] by blast
  show ?thesis
  proof (cases "matches_Yy (answer (tl (stdin_lines e)))")
    case y: True
    let ?f = "closing (verify_deployment e (restore_data e (upgrade_to_cluster e (echo [] s9))))"
    obtain l where l: "trace ?f = trace (echo [] s9) @ l" "reads_of l = []" "HelmUpgrade \<in> set (calls_of l)"
      using later_stages by blast
    have "upgrade_script e = (0, ?f)"
      using y by (simp add: u upgrade_process_def then_sh_def f(4) s1(4))
    then show ?thesis
      using y l f(1,2,3) p s1(4) by simp
  next
    case n: False
    have "upgrade_script e = (1, echo ''Upgrade aborted.'' s9)"
      using n by (simp add: u upgrade_process_def then_sh_def f(4) s1(4))
    then show ?thesis
      using n f(1,2,3) p s1(4) by simp
  qed
qed

section \<open>Declining at the confirmation\<close>

text \<open>
  C4, amended. In a run that passes the checks at the top, when the answer to
  \<^verbatim>\<open>Do you want to continue? (y/N)\<close>, once \<^verbatim>\<open>read\<close> has removed the blanks at its start and
  end, is neither \<^verbatim>\<open>y\<close> nor \<^verbatim>\<open>Y\<close> (or the input has ended), the script exits with status 0;
  after reading the answer it only prints \<^verbatim>\<open>Upgrade aborted.\<close>; the external commands of
  the whole run are the four \<^verbatim>\<open>kubectl get\<close> of the resource check, none of which changes
  anything; no job exists and the database and the bucket are as they were.
\<close>

theorem abort_on_decline:
  assumes "\<not> precondition_fails e" and "\<not> matches_Yy (answer (stdin_lines e))"
  shows "fst (upgrade_script e) = 0
       \<and> after_read (trace (snd (upgrade_script e))) = [Echo ''Upgrade aborted.'']
       \<and> calls_of (trace (snd (upgrade_script e))) =
           [KubectlGet ''nodes'', KubectlGet ''nodes'',
            KubectlGet ''storageclass'', KubectlGet ''storageclass'']
       \<and> \<not> list_ex mutating (calls_of (trace (snd (upgrade_script e))))
       \<and> jobs (snd (upgrade_script e)) = []
       \<and> cl (snd (upgrade_script e)) = cluster0 e"
proof -
  from assms(1) have "checks_pass e (init e)"
    by (simp add: precondition_fails_iff)
  then obtain s1 where s1: "env_checks e (init e) = Running s1"
    "calls_of (trace s1) = calls_of (trace (init e))" "reads_of (trace s1) = reads_of (trace (init e))"
    "stdin s1 = stdin (init e)" "cl s1 = cl (init e)" "jobs s1 = jobs (init e)"
    by (rule env_checks_pass)
  let ?p = "confirm_prompt (check_cluster_resources e (banner s1))"
  have no: "\<not> matches_Yy (var ?p ''proceed'')"
    using assms(2) s1(4) by simp
  have u: "upgrade_script e = (0, echo ''Upgrade aborted.'' ?p)"
    using no by (simp add: upgrade_script_def then_sh_def s1(1) main_flow_def Let_def)
  have r: "reads_of (trace s1) = []"
    using s1(3) by simp
  have a: "after_read (trace ?p @ [Echo ''Upgrade aborted.'']) = [Echo ''Upgrade aborted.'']"
    using r by (rule after_read_prompt)
  show ?thesis
    unfolding u using a s1 by simp
qed

theorem abort_on_decline_witness:
  "\<not> precondition_fails (example_env\<lparr>stdin_lines := [''n'']\<rparr>)
   \<and> \<not> matches_Yy (answer (stdin_lines (example_env\<lparr>stdin_lines := [''n'']\<rparr>)))
   \<and> fst (upgrade_script (example_env\<lparr>stdin_lines := [''n'']\<rparr>)) = 0
   \<and> after_read (trace (snd (upgrade_script (example_env\<lparr>stdin_lines := [''n'']\<rparr>)))) = [Echo ''Upgrade aborted.'']
   \<and> jobs (snd (upgrade_script (example_env\<lparr>stdin_lines := [''n'']\<rparr>))) = []"
proof -
  let ?e = "example_env\<lparr>stdin_lines := [''n'']\<rparr>"
  have h1: "\<not> precondition_fails ?e"
    by (simp add: precondition_fails_def required_vars_def required_tools_def missing_def
        command_v_def example_env_def)
  have h2: "\<not> matches_Yy (answer (stdin_lines ?e))"
    by (simp add: matches_Yy_def answer_def next_line_def strip_blanks_def is_blank_def)
  show ?thesis
    using abort_on_decline [OF h1 h2] h1 h2 by simp
qed

text \<open>
  C4 as stated fails: the line \<^verbatim>\<open> y \<close> (a blank, \<^verbatim>\<open>y\<close>, a blank) is an answer that is not
  \<^verbatim>\<open>y\<close> or \<^verbatim>\<open>Y\<close>, but \<^verbatim>\<open>read\<close> assigns \<^verbatim>\<open>y\<close>, the test matches, and after the prompt the
  script submits the backup job and invokes \<^verbatim>\<open>helm upgrade\<close>.
\<close>

theorem abort_on_decline_counterexample:
  "stdin_lines padded_env = ['' y '']
   \<and> \<not> matches_Yy '' y ''
   \<and> KubectlApply ''milvus-backup-job.yaml''
        \<in> set (calls_of (after_read (trace (snd (upgrade_script padded_env)))))
   \<and> HelmUpgrade \<in> set (calls_of (after_read (trace (snd (upgrade_script padded_env)))))
   \<and> list_ex mutating (calls_of (after_read (trace (snd (upgrade_script padded_env)))))"
proof -
  have h1: "\<not> precondition_fails padded_env"
    by (simp add: precondition_fails_def required_vars_def required_tools_def missing_def
        command_v_def example_env_def padded_env_def)
  have h2: "matches_Yy (answer (stdin_lines padded_env))"
    by (simp add: matches_Yy_def answer_def next_line_def strip_blanks_def is_blank_def padded_env_def)
  have "connects (connect_ok padded_env 0)"
    unfolding connects_iff by (rule exI [of _ 0]) (simp add: padded_env_def example_env_def)
  then have h3: "job_connects padded_env 0"
    unfolding job_connects_iff by (intro exI [of _ 0]) simp
  have a: "KubectlApply ''milvus-backup-job.yaml''
        \<in> set (calls_of (after_read (trace (snd (upgrade_script padded_env)))))"
    using h1 h2 by (rule confirmed_run_submits)
  have b: "HelmUpgrade \<in> set (calls_of (after_read (trace (snd (upgrade_script padded_env)))))"
    using h1 h2 h3 by (rule confirmed_run_upgrades)
  have c: "list_ex mutating (calls_of (after_read (trace (snd (upgrade_script padded_env)))))"
    unfolding list_ex_iff using b by (intro bexI [of _ HelmUpgrade]) simp_all
  show ?thesis
    using a b c by (simp add: padded_env_def matches_Yy_def)
qed

section \<open>The gate after a failed backup\<close>

text \<open>
  C5, amended. In a run that passes the checks and is confirmed, when the backup job has
  not succeeded, the operator is asked \<^verbatim>\<open>Do you want to continue with the upgrade anyway? (y/N)\<close>
  and a second line is read. If its answer (the line once \<^verbatim>\<open>read\<close> has removed the blanks at
  its start and end) is \<^verbatim>\<open>y\<close> or \<^verbatim>\<open>Y\<close>, the run goes on, \<^verbatim>\<open>helm upgrade\<close> is invoked and the
  script ends with status 0; otherwise the script prints \<^verbatim>\<open>Upgrade aborted.\<close> and exits
  with status 1, and \<^verbatim>\<open>helm upgrade\<close> has not been invoked.
\<close>

theorem gated_backup_failure:
  assumes "\<not> precondition_fails e" and "matches_Yy (answer (stdin_lines e))"
    and "\<not> job_succeeded (''milvus-backup-'' @ date_fmt (now e)) (snd (upgrade_script e))"
  shows "Echo ''Do you want to continue with the upgrade anyway? (y/N)'' \<in> set (trace (snd (upgrade_script e)))
       \<and> reads_of (trace (snd (upgrade_script e))) = [next_line (stdin_lines e), next_line (tl (stdin_lines e))]
       \<and> (matches_Yy (answer (tl (stdin_lines e))) \<longrightarrow>
            fst (upgrade_script e) = 0 \<and> HelmUpgrade \<in> set (calls_of (trace (snd (upgrade_script e)))))
       \<and> (\<not> matches_Yy (answer (tl (stdin_lines e))) \<longrightarrow>
            fst (upgrade_script e) = 1 \<and> HelmUpgrade \<notin> set (calls_of (trace (snd (upgrade_script e))))
            \<and> last (trace (snd (upgrade_script e))) = Echo ''Upgrade aborted.'')"
proof -
  have "\<not> job_connects e 0"
    using assms(3) final_backup_job_status [OF assms(1) assms(2)] by simp
  with assms(1) assms(2) show ?thesis
    by (rule backup_failure_gate)
qed

theorem gated_backup_failure_witness:
  "\<not> precondition_fails unreachable_env
   \<and> matches_Yy (answer (stdin_lines unreachable_env))
   \<and> \<not> job_succeeded (''milvus-backup-'' @ date_fmt (now unreachable_env)) (snd (upgrade_script unreachable_env))
   \<and> matches_Yy (answer (tl (stdin_lines unreachable_env)))
   \<and> fst (upgrade_script unreachable_env) = 0
   \<and> HelmUpgrade \<in> set (calls_of (trace (snd (upgrade_script unreachable_env))))"
proof -
  have h1: "\<not> precondition_fails unreachable_env"
    by (simp add: precondition_fails_def required_vars_def required_tools_def missing_def
        command_v_def example_env_def unreachable_env_def)
  have h2: "matches_Yy (answer (stdin_lines unreachable_env))"
    by (simp add: matches_Yy_def answer_def next_line_def strip_blanks_def is_blank_def
        unreachable_env_def)
  have "\<not> job_connects unreachable_env 0"
    by (simp add: job_connects_iff connects_iff unreachable_env_def)
  then have h3: "\<not> job_succeeded (''milvus-backup-'' @ date_fmt (now unreachable_env)) (snd (upgrade_script unreachable_env))"
    using final_backup_job_status [OF h1 h2] by simp
  have h4: "matches_Yy (answer (tl (stdin_lines unreachable_env)))"
    by (simp add: matches_Yy_def answer_def next_line_def strip_blanks_def is_blank_def
        unreachable_env_def)
  show ?thesis
    using gated_backup_failure [OF h1 h2 h3] h1 h2 h3 h4 by blast
qed

text \<open>
  C5 as stated fails: with a backup job that cannot connect, the second line \<^verbatim>\<open> y \<close> (a
  blank, \<^verbatim>\<open>y\<close>, a blank) is an answer other than \<^verbatim>\<open>y\<close> or \<^verbatim>\<open>Y\<close>, but \<^verbatim>\<open>read\<close> assigns
  \<^verbatim>\<open>y\<close>: the script does not terminate there, it invokes \<^verbatim>\<open>helm upgrade\<close> and ends with
  status 0.
\<close>

theorem gated_backup_failure_counterexample:
  "stdin_lines padded_unreachable_env = [''y'', '' y '']
   \<and> \<not> matches_Yy '' y ''
   \<and> \<not> job_succeeded (''milvus-backup-'' @ date_fmt (now padded_unreachable_env))
         (snd (upgrade_script padded_unreachable_env))
   \<and> reads_of (trace (snd (upgrade_script padded_unreachable_env))) = [''y'', '' y '']
   \<and> fst (upgrade_script padded_unreachable_env) = 0
   \<and> HelmUpgrade \<in> set (calls_of (trace (snd (upgrade_script padded_unreachable_env))))"
proof -
  have h1: "\<not> precondition_fails padded_unreachable_env"
    by (simp add: precondition_fails_def required_vars_def required_tools_def missing_def
        command_v_def example_env_def unreachable_env_def padded_unreachable_env_def)
  have h2: "matches_Yy (answer (stdin_lines padded_unreachable_env))"
    by (simp add: matches_Yy_def answer_def next_line_def strip_blanks_def is_blank_def
        padded_unreachable_env_def)
  have h3: "\<not> job_connects padded_unreachable_env 0"
    by (simp add: job_connects_iff connects_iff unreachable_env_def padded_unreachable_env_def)
  then have h4: "\<not> job_succeeded (''milvus-backup-'' @ date_fmt (now padded_unreachable_env))
         (snd (upgrade_script padded_unreachable_env))"
    using final_backup_job_status [OF h1 h2] by simp
  have h5: "matches_Yy (answer (tl (stdin_lines padded_unreachable_env)))"
    by (simp add: matches_Yy_def answer_def next_line_def strip_blanks_def is_blank_def
        padded_unreachable_env_def)
  have l: "stdin_lines padded_unreachable_env = [''y'', '' y '']"
    by (simp add: padded_unreachable_env_def)
  have n: "\<not> matches_Yy '' y ''"
    by (simp add: matches_Yy_def)
  show ?thesis
    using backup_failure_gate [OF h1 h2 h3] h4 h5 l n by (simp add: next_line_def)
qed

section \<open>Idempotency of the access bootstrap\<close>

lemma log_call_fields [simp]:
  "b_iam (log_call c r) = b_iam r" "POLICY_ARN (log_call c r) = POLICY_ARN r"
  "ROLE_ARN (log_call c r) = ROLE_ARN r" "b_status (log_call c r) = b_status r"
  "b_calls (log_call c r) = b_calls r @ [c]"
  by (simp_all add: log_call_def)

lemma arn_account:
  "account a' = account a \<Longrightarrow> policy_arn a' n = policy_arn a n"
  "account a' = account a \<Longrightarrow> role_arn a' n = role_arn a n"
  by (simp_all add: policy_arn_def role_arn_def)

lemma policy_arn_inj [simp]: "(policy_arn a n = policy_arn a m) = (n = m)"
  by (simp add: policy_arn_def)

lemma get_policy_iff [simp]: "get_policy (policy_arn a n) a = (n \<in> set (policies a))"
  by (auto simp: get_policy_def)

text \<open>What holds of the IAM once a policy and a role are in place.\<close>

lemma create_or_list_policy_post:
  "n \<in> set (policies (b_iam (create_or_list_policy n r)))
   \<and> POLICY_ARN (create_or_list_policy n r) = policy_arn (b_iam r) n
   \<and> account (b_iam (create_or_list_policy n r)) = account (b_iam r)
   \<and> b_status (create_or_list_policy n r) = b_status r"
  by (simp add: create_or_list_policy_def create_policy_def list_policies_arn_def policy_arn_def)

lemma create_or_list_policy_idem:
  "n \<in> set (policies (b_iam r)) \<Longrightarrow>
     create_or_list_policy n r =
       log_call (ListPolicies n) (log_call (CreatePolicy n False) (r\<lparr>POLICY_ARN := policy_arn (b_iam r) n\<rparr>))"
  by (simp add: create_or_list_policy_def create_policy_def list_policies_arn_def)

lemma create_or_get_role_post:
  "n \<in> set (roles (b_iam (create_or_get_role n r)))
   \<and> ROLE_ARN (create_or_get_role n r) = role_arn (b_iam r) n
   \<and> POLICY_ARN (create_or_get_role n r) = POLICY_ARN r
   \<and> policies (b_iam (create_or_get_role n r)) = policies (b_iam r)
   \<and> account (b_iam (create_or_get_role n r)) = account (b_iam r)
   \<and> b_status (create_or_get_role n r) = b_status r"
  by (simp add: create_or_get_role_def create_role_def get_role_def role_arn_def)

lemma create_or_get_role_idem:
  "n \<in> set (roles (b_iam r)) \<Longrightarrow>
     create_or_get_role n r =
       log_call (GetRole n True) (log_call (CreateRole n False) (r\<lparr>ROLE_ARN := role_arn (b_iam r) n\<rparr>))"
  by (simp add: create_or_get_role_def create_role_def get_role_def)

lemma attach_policy_post:
  "n \<in> set (roles (b_iam r)) \<Longrightarrow> POLICY_ARN r = policy_arn (b_iam r) p \<Longrightarrow> p \<in> set (policies (b_iam r)) \<Longrightarrow>
     (n, POLICY_ARN r) \<in> set (attached (b_iam (attach_policy n f r)))
   \<and> roles (b_iam (attach_policy n f r)) = roles (b_iam r)
   \<and> policies (b_iam (attach_policy n f r)) = policies (b_iam r)
   \<and> account (b_iam (attach_policy n f r)) = account (b_iam r)
   \<and> POLICY_ARN (attach_policy n f r) = POLICY_ARN r \<and> ROLE_ARN (attach_policy n f r) = ROLE_ARN r
   \<and> b_status (attach_policy n f r) = b_status r"
  by (simp add: attach_policy_def attach_role_policy_def)

lemma attach_policy_idem:
  "n \<in> set (roles (b_iam r)) \<Longrightarrow> POLICY_ARN r = policy_arn (b_iam r) p \<Longrightarrow> p \<in> set (policies (b_iam r)) \<Longrightarrow>
   (n, POLICY_ARN r) \<in> set (attached (b_iam r)) \<Longrightarrow>
     attach_policy n f r = log_call (AttachRolePolicy n (POLICY_ARN r) True) r"
  by (simp add: attach_policy_def attach_role_policy_def List.insert_def)


lemma get_or_create_policy_post:
  "n \<in> set (policies (b_iam (get_or_create_policy n r)))
   \<and> POLICY_ARN (get_or_create_policy n r) = policy_arn (b_iam r) n
   \<and> account (b_iam (get_or_create_policy n r)) = account (b_iam r)"
  by (simp add: get_or_create_policy_def create_policy_def)

lemma get_or_create_policy_idem:
  "n \<in> set (policies (b_iam r)) \<Longrightarrow>
     get_or_create_policy n r = log_call (GetPolicy n True) (r\<lparr>POLICY_ARN := policy_arn (b_iam r) n\<rparr>)"
  by (simp add: get_or_create_policy_def)

lemma attach_policy_frame:
  "roles (b_iam (attach_policy n f r)) = roles (b_iam r)
   \<and> policies (b_iam (attach_policy n f r)) = policies (b_iam r)
   \<and> account (b_iam (attach_policy n f r)) = account (b_iam r)
   \<and> POLICY_ARN (attach_policy n f r) = POLICY_ARN r \<and> ROLE_ARN (attach_policy n f r) = ROLE_ARN r"
  by (simp add: attach_policy_def attach_role_policy_def split: sum.splits)

lemma get_or_create_role_post:
  "n \<in> set (roles (b_iam (get_or_create_role n r)))
   \<and> ROLE_ARN (get_or_create_role n r) = role_arn (b_iam r) n
   \<and> POLICY_ARN (get_or_create_role n r) = POLICY_ARN r
   \<and> policies (b_iam (get_or_create_role n r)) = policies (b_iam r)
   \<and> account (b_iam (get_or_create_role n r)) = account (b_iam r)"
  by (simp add: get_or_create_role_def create_role_def get_role_def attach_policy_frame role_arn_def)

lemma get_or_create_role_idem:
  "n \<in> set (roles (b_iam r)) \<Longrightarrow>
     get_or_create_role n r =
       log_call (GetRole n True) (log_call (GetRole n True) (r\<lparr>ROLE_ARN := role_arn (b_iam r) n\<rparr>))"
  by (simp add: get_or_create_role_def get_role_def)

lemma eks_admin_access_post:
  "b_status (eks_admin_access a) = 0
   \<and> ''EksAdminPolicy'' \<in> set (policies (b_iam (eks_admin_access a)))
   \<and> ''eks-admin-role'' \<in> set (roles (b_iam (eks_admin_access a)))
   \<and> (''eks-admin-role'', policy_arn a ''EksAdminPolicy'') \<in> set (attached (b_iam (eks_admin_access a)))
   \<and> POLICY_ARN (eks_admin_access a) = policy_arn a ''EksAdminPolicy''
   \<and> ROLE_ARN (eks_admin_access a) = role_arn a ''eks-admin-role''
   \<and> account (b_iam (eks_admin_access a)) = account a"
proof -
  let ?r1 = "create_or_list_policy ''EksAdminPolicy'' (new_bootstrap a)"
  let ?r2 = "create_or_get_role ''eks-admin-role'' ?r1"
  have n: "b_iam (new_bootstrap a) = a" "b_status (new_bootstrap a) = 0"
    by (simp_all add: new_bootstrap_def)
  have 1: "''EksAdminPolicy'' \<in> set (policies (b_iam ?r1))" "POLICY_ARN ?r1 = policy_arn a ''EksAdminPolicy''"
    "account (b_iam ?r1) = account a" "b_status ?r1 = 0"
    using create_or_list_policy_post [of "''EksAdminPolicy''" "new_bootstrap a"] by (simp_all add: n)
  have 2: "''eks-admin-role'' \<in> set (roles (b_iam ?r2))" "ROLE_ARN ?r2 = role_arn a ''eks-admin-role''"
    "POLICY_ARN ?r2 = policy_arn a ''EksAdminPolicy''" "''EksAdminPolicy'' \<in> set (policies (b_iam ?r2))"
    "account (b_iam ?r2) = account a" "b_status ?r2 = 0"
    using create_or_get_role_post [of "''eks-admin-role''" ?r1] 1
      arn_account(2) [OF 1(3), of "''eks-admin-role''"] by simp_all
  have pa: "POLICY_ARN ?r2 = policy_arn (b_iam ?r2) ''EksAdminPolicy''"
    using 2(3) arn_account(1) [OF 2(5), of "''EksAdminPolicy''"] by simp
  have e: "eks_admin_access a = attach_policy ''eks-admin-role'' True ?r2"
    using 2(6) by (simp add: eks_admin_access_def Let_def)
  show ?thesis
    unfolding e
    using attach_policy_post [OF 2(1) pa 2(4), of True] 2 by simp
qed

lemma new_bootstrap_fields [simp]:
  "b_iam (new_bootstrap a) = a" "b_status (new_bootstrap a) = 0" "POLICY_ARN (new_bootstrap a) = []"
  "ROLE_ARN (new_bootstrap a) = []" "b_calls (new_bootstrap a) = []"
  by (simp_all add: new_bootstrap_def)

lemma eks_admin_access_idem:
  assumes "''EksAdminPolicy'' \<in> set (policies a)" "''eks-admin-role'' \<in> set (roles a)"
     "(''eks-admin-role'', policy_arn a ''EksAdminPolicy'') \<in> set (attached a)"
  shows "b_iam (eks_admin_access a) = a
     \<and> POLICY_ARN (eks_admin_access a) = policy_arn a ''EksAdminPolicy''
     \<and> ROLE_ARN (eks_admin_access a) = role_arn a ''eks-admin-role''
     \<and> b_calls (eks_admin_access a) =
          [CreatePolicy ''EksAdminPolicy'' False, ListPolicies ''EksAdminPolicy'',
           CreateRole ''eks-admin-role'' False, GetRole ''eks-admin-role'' True,
           AttachRolePolicy ''eks-admin-role'' (policy_arn a ''EksAdminPolicy'') True]
     \<and> b_status (eks_admin_access a) = 0"
proof -
  let ?r1 = "create_or_list_policy ''EksAdminPolicy'' (new_bootstrap a)"
  let ?r2 = "create_or_get_role ''eks-admin-role'' ?r1"
  have 1: "?r1 = log_call (ListPolicies ''EksAdminPolicy'') (log_call (CreatePolicy ''EksAdminPolicy'' False)
               ((new_bootstrap a)\<lparr>POLICY_ARN := policy_arn a ''EksAdminPolicy''\<rparr>))"
    using create_or_list_policy_idem [of "''EksAdminPolicy''" "new_bootstrap a"] assms(1) by simp
  have r1: "b_iam ?r1 = a" "b_status ?r1 = 0" "POLICY_ARN ?r1 = policy_arn a ''EksAdminPolicy''"
    "b_calls ?r1 = [CreatePolicy ''EksAdminPolicy'' False, ListPolicies ''EksAdminPolicy'']"
    by (simp_all add: 1)
  have 2: "?r2 = log_call (GetRole ''eks-admin-role'' True) (log_call (CreateRole ''eks-admin-role'' False)
               (?r1\<lparr>ROLE_ARN := role_arn a ''eks-admin-role''\<rparr>))"
    using create_or_get_role_idem [of "''eks-admin-role''" ?r1] assms(2) r1(1) by simp
  have r2: "b_iam ?r2 = a" "b_status ?r2 = 0" "POLICY_ARN ?r2 = policy_arn a ''EksAdminPolicy''"
    "ROLE_ARN ?r2 = role_arn a ''eks-admin-role''"
    "b_calls ?r2 = [CreatePolicy ''EksAdminPolicy'' False, ListPolicies ''EksAdminPolicy'',
                    CreateRole ''eks-admin-role'' False, GetRole ''eks-admin-role'' True]"
    by (simp_all add: 2 r1)
  have e: "eks_admin_access a = attach_policy ''eks-admin-role'' True ?r2"
    using r2(2) by (simp add: eks_admin_access_def Let_def)
  have 3: "attach_policy ''eks-admin-role'' True ?r2
      = log_call (AttachRolePolicy ''eks-admin-role'' (POLICY_ARN ?r2) True) ?r2"
    by (rule attach_policy_idem [where p = "''EksAdminPolicy''"]) (simp_all add: r2 assms)
  show ?thesis
    by (simp add: e 3 r2)
qed

lemma lb_controller_access_post:
  "''AWSLoadBalancerControllerIAMPolicy'' \<in> set (policies (b_iam (lb_controller_access a)))
   \<and> ''AmazonEKSLoadBalancerControllerRole'' \<in> set (roles (b_iam (lb_controller_access a)))
   \<and> POLICY_ARN (lb_controller_access a) = policy_arn a ''AWSLoadBalancerControllerIAMPolicy''
   \<and> ROLE_ARN (lb_controller_access a) = role_arn a ''AmazonEKSLoadBalancerControllerRole''
   \<and> account (b_iam (lb_controller_access a)) = account a"
proof -
  let ?r1 = "get_or_create_policy ''AWSLoadBalancerControllerIAMPolicy'' (new_bootstrap a)"
  have n: "b_iam (new_bootstrap a) = a"
    by (simp add: new_bootstrap_def)
  have 1: "''AWSLoadBalancerControllerIAMPolicy'' \<in> set (policies (b_iam ?r1))"
    "POLICY_ARN ?r1 = policy_arn a ''AWSLoadBalancerControllerIAMPolicy''"
    "account (b_iam ?r1) = account a"
    using get_or_create_policy_post [of "''AWSLoadBalancerControllerIAMPolicy''" "new_bootstrap a"]
    by (simp_all add: n)
  show ?thesis
    unfolding lb_controller_access_def
    using get_or_create_role_post [of "''AmazonEKSLoadBalancerControllerRole''" ?r1] 1
      arn_account(2) [OF 1(3), of "''AmazonEKSLoadBalancerControllerRole''"]
    by simp
qed

lemma lb_controller_access_idem:
  assumes "''AWSLoadBalancerControllerIAMPolicy'' \<in> set (policies a)"
    "''AmazonEKSLoadBalancerControllerRole'' \<in> set (roles a)"
  shows "b_iam (lb_controller_access a) = a
     \<and> POLICY_ARN (lb_controller_access a) = policy_arn a ''AWSLoadBalancerControllerIAMPolicy''
     \<and> ROLE_ARN (lb_controller_access a) = role_arn a ''AmazonEKSLoadBalancerControllerRole''
     \<and> b_calls (lb_controller_access a) =
          [GetPolicy ''AWSLoadBalancerControllerIAMPolicy'' True,
           GetRole ''AmazonEKSLoadBalancerControllerRole'' True,
           GetRole ''AmazonEKSLoadBalancerControllerRole'' True]"
proof -
  let ?r1 = "get_or_create_policy ''AWSLoadBalancerControllerIAMPolicy'' (new_bootstrap a)"
  let ?r2 = "get_or_create_role ''AmazonEKSLoadBalancerControllerRole'' ?r1"
  have 1: "?r1 = log_call (GetPolicy ''AWSLoadBalancerControllerIAMPolicy'' True)
       ((new_bootstrap a)\<lparr>POLICY_ARN := policy_arn a ''AWSLoadBalancerControllerIAMPolicy''\<rparr>)"
    using get_or_create_policy_idem [of "''AWSLoadBalancerControllerIAMPolicy''" "new_bootstrap a"] assms(1)
    by simp
  have r1: "b_iam ?r1 = a" "POLICY_ARN ?r1 = policy_arn a ''AWSLoadBalancerControllerIAMPolicy''"
    "b_calls ?r1 = [GetPolicy ''AWSLoadBalancerControllerIAMPolicy'' True]"
    by (simp_all add: 1)
  have 2: "?r2 = log_call (GetRole ''AmazonEKSLoadBalancerControllerRole'' True)
       (log_call (GetRole ''AmazonEKSLoadBalancerControllerRole'' True)
          (?r1\<lparr>ROLE_ARN := role_arn a ''AmazonEKSLoadBalancerControllerRole''\<rparr>))"
    using get_or_create_role_idem [of "''AmazonEKSLoadBalancerControllerRole''" ?r1] assms(2) r1(1)
    by simp
  have e: "lb_controller_access a = ?r2"
    by (simp add: lb_controller_access_def)
  show ?thesis
    unfolding e by (simp add: 2 r1)
qed

text \<open>
  C8. Running either access bootstrap a second time, on the IAM the first run left,
  leaves the IAM as it is (no policy, role or attachment is added), resolves the same
  policy and role ARNs, and succeeds; in the second run of the first script both
  \<^verbatim>\<open>create\<close> calls fail and the ARNs come from \<^verbatim>\<open>list-policies\<close> and \<^verbatim>\<open>get-role\<close>; in
  the second run of the other script the look-ups succeed and nothing is created.
\<close>

theorem access_bootstrap_idempotent:
  "b_iam (eks_admin_access (b_iam (eks_admin_access a))) = b_iam (eks_admin_access a)
   \<and> POLICY_ARN (eks_admin_access (b_iam (eks_admin_access a))) = POLICY_ARN (eks_admin_access a)
   \<and> ROLE_ARN (eks_admin_access (b_iam (eks_admin_access a))) = ROLE_ARN (eks_admin_access a)
   \<and> b_status (eks_admin_access (b_iam (eks_admin_access a))) = 0
   \<and> b_calls (eks_admin_access (b_iam (eks_admin_access a)))
       = [CreatePolicy ''EksAdminPolicy'' False, ListPolicies ''EksAdminPolicy'',
          CreateRole ''eks-admin-role'' False, GetRole ''eks-admin-role'' True,
          AttachRolePolicy ''eks-admin-role'' (POLICY_ARN (eks_admin_access a)) True]
   \<and> b_iam (lb_controller_access (b_iam (lb_controller_access a))) = b_iam (lb_controller_access a)
   \<and> POLICY_ARN (lb_controller_access (b_iam (lb_controller_access a))) = POLICY_ARN (lb_controller_access a)
   \<and> ROLE_ARN (lb_controller_access (b_iam (lb_controller_access a))) = ROLE_ARN (lb_controller_access a)
   \<and> b_calls (lb_controller_access (b_iam (lb_controller_access a)))
       = [GetPolicy ''AWSLoadBalancerControllerIAMPolicy'' True,
          GetRole ''AmazonEKSLoadBalancerControllerRole'' True,
          GetRole ''AmazonEKSLoadBalancerControllerRole'' True]"
proof -
  let ?a1 = "b_iam (eks_admin_access a)"
  have p: "''EksAdminPolicy'' \<in> set (policies ?a1)" "''eks-admin-role'' \<in> set (roles ?a1)"
    "(''eks-admin-role'', policy_arn a ''EksAdminPolicy'') \<in> set (attached ?a1)"
    "POLICY_ARN (eks_admin_access a) = policy_arn a ''EksAdminPolicy''"
    "ROLE_ARN (eks_admin_access a) = role_arn a ''eks-admin-role''"
    "account ?a1 = account a"
    using eks_admin_access_post [of a] by simp_all
  have arn: "policy_arn ?a1 ''EksAdminPolicy'' = policy_arn a ''EksAdminPolicy''"
    "role_arn ?a1 ''eks-admin-role'' = role_arn a ''eks-admin-role''"
    using arn_account [OF p(6)] by simp_all
  have "(''eks-admin-role'', policy_arn ?a1 ''EksAdminPolicy'') \<in> set (attached ?a1)"
    using p(3) by (simp only: arn)
  note e = eks_admin_access_idem [OF p(1) p(2) this]
  let ?b1 = "b_iam (lb_controller_access a)"
  have q: "''AWSLoadBalancerControllerIAMPolicy'' \<in> set (policies ?b1)"
    "''AmazonEKSLoadBalancerControllerRole'' \<in> set (roles ?b1)"
    "POLICY_ARN (lb_controller_access a) = policy_arn a ''AWSLoadBalancerControllerIAMPolicy''"
    "ROLE_ARN (lb_controller_access a) = role_arn a ''AmazonEKSLoadBalancerControllerRole''"
    "account ?b1 = account a"
    using lb_controller_access_post [of a] by simp_all
  have arn2: "policy_arn ?b1 ''AWSLoadBalancerControllerIAMPolicy'' = policy_arn a ''AWSLoadBalancerControllerIAMPolicy''"
    "role_arn ?b1 ''AmazonEKSLoadBalancerControllerRole'' = role_arn a ''AmazonEKSLoadBalancerControllerRole''"
    using arn_account [OF q(5)] by simp_all
  note l = lb_controller_access_idem [OF q(1) q(2)]
  show ?thesis
    using e l by (simp only: arn arn2 p(4,5) q(3,4))
qed

section \<open>Destructive overwrite at restore\<close>

lemma map_of_filter_other: "n \<noteq> k \<Longrightarrow> map_of (filter (\<lambda>p. fst p \<noteq> k) xs) n = map_of xs n"
  by (induction xs) auto

lemma map_of_filter_self: "map_of (filter (\<lambda>p. fst p \<noteq> k) xs) k = None"
  by (induction xs) auto

lemma drop_collection_fields [simp]:
  "s3_objects (drop_collection k c) = s3_objects c" "s3_exists (drop_collection k c) = s3_exists c"
  "map_of (milvus (drop_collection k c)) n = (if n = k then None else map_of (milvus c) n)"
  by (simp_all add: drop_collection_def map_of_filter_other map_of_filter_self)

lemma download_file_print [simp]: "download_file f (py_print m c) = download_file f c"
  by (simp add: download_file_def)

lemma has_collection_print [simp]: "has_collection n (py_print m c) = has_collection n c"
  by (simp add: has_collection_def)

lemma Collection_Ok:
  "Collection k schema c = Ok c' \<Longrightarrow>
     s3_objects c' = s3_objects c \<and> s3_exists c' = s3_exists c
   \<and> (\<forall>n. n \<noteq> k \<longrightarrow> map_of (milvus c') n = map_of (milvus c) n)
   \<and> (map_of (milvus c) k = None \<longrightarrow>
        map_of (milvus c') k = Some \<lparr>col_schema = schema, col_indexes = []\<rparr>)"
  by (auto simp: Collection_def map_add_def split: option.splits if_splits)

lemma create_index_Ok:
  "create_index k ix c = Ok c' \<Longrightarrow>
     s3_objects c' = s3_objects c \<and> s3_exists c' = s3_exists c
   \<and> (\<forall>n. n \<noteq> k \<longrightarrow> map_of (milvus c') n = map_of (milvus c) n)
   \<and> (\<exists>col. map_of (milvus c) k = Some col
          \<and> map_of (milvus c') k = Some (col\<lparr>col_indexes := col_indexes col @ [ix]\<rparr>))"
  by (auto simp: create_index_def update_conv' split: option.splits if_splits)

lemma create_indexes_Ok:
  "for_each (create_one_index k) ixs c = Ok c' \<Longrightarrow> map_of (milvus c) k = Some col \<Longrightarrow>
     s3_objects c' = s3_objects c \<and> s3_exists c' = s3_exists c
   \<and> (\<forall>n. n \<noteq> k \<longrightarrow> map_of (milvus c') n = map_of (milvus c) n)
   \<and> map_of (milvus c') k = Some (col\<lparr>col_indexes := col_indexes col @ ixs\<rparr>)"
proof (induction ixs arbitrary: c col)
  case Nil
  then show ?case by simp
next
  case (Cons ix ixs)
  from Cons.prems(1) obtain c1 where
    c1: "create_one_index k ix c = Ok c1" and r: "for_each (create_one_index k) ixs c1 = Ok c'"
    by (cases "create_one_index k ix c") simp_all
  let ?cp = "py_print (''Creating index on '' @ ix_field_name ix @ '' with type '' @ ix_index_type ix) c"
  have "create_index k ix ?cp = Ok c1"
    using c1 by (simp add: create_one_index_def)
  from create_index_Ok [OF this] Cons.prems(2)
  have s: "s3_objects c1 = s3_objects c" "s3_exists c1 = s3_exists c"
    "\<forall>n. n \<noteq> k \<longrightarrow> map_of (milvus c1) n = map_of (milvus c) n"
    "map_of (milvus c1) k = Some (col\<lparr>col_indexes := col_indexes col @ [ix]\<rparr>)"
    by auto
  from Cons.IH [OF r s(4)] s show ?case by simp
qed


lemma same_objects:
  assumes "s3_objects c1 = s3_objects c"
  shows "download_file f c1 = download_file f c" "restored_indexes paths c1 = restored_indexes paths c"
proof -
  have dl: "download_file g c1 = download_file g c" for g
    using assms by (simp add: download_file_def)
  show "download_file f c1 = download_file f c" by (rule dl)
  show "restored_indexes paths c1 = restored_indexes paths c"
    by (simp add: restored_indexes_def dl split: option.splits)
qed

lemma restore_indexes_Ok:
  "restore_indexes k paths c = Ok c' \<Longrightarrow> map_of (milvus c) k = Some col \<Longrightarrow>
     s3_objects c' = s3_objects c \<and> s3_exists c' = s3_exists c
   \<and> (\<forall>n. n \<noteq> k \<longrightarrow> map_of (milvus c') n = map_of (milvus c) n)
   \<and> map_of (milvus c') k = Some (col\<lparr>col_indexes := col_indexes col @ restored_indexes paths c\<rparr>)"
proof (cases "find_path ''/indexes.json'' paths")
  case None
  assume "restore_indexes k paths c = Ok c'" "map_of (milvus c) k = Some col"
  then show ?thesis using None by (simp add: restore_indexes_def restored_indexes_def)
next
  case (Some g)
  assume a: "restore_indexes k paths c = Ok c'" "map_of (milvus c) k = Some col"
  then obtain ixs where d: "download_file g c = Some (IndexDoc ixs)"
    and f: "for_each (create_one_index k) ixs c = Ok c'"
    using Some by (auto simp: restore_indexes_def split: option.splits s3_object.splits)
  have "restored_indexes paths c = ixs"
    using Some d by (simp add: restored_indexes_def)
  then show ?thesis
    using create_indexes_Ok [OF f a(2)] by simp
qed

lemma restore_collection_Ok:
  assumes "restore_collection (k, paths) c = Ok c'"
  shows "s3_objects c' = s3_objects c \<and> s3_exists c' = s3_exists c
   \<and> (\<forall>n. n \<noteq> k \<longrightarrow> map_of (milvus c') n = map_of (milvus c) n)
   \<and> (\<forall>f. find_path ''/schema.json'' paths = Some f \<longrightarrow>
        (\<exists>schema_data field_schemas.
            download_file f c = Some (SchemaDoc schema_data)
          \<and> convert_fields (sd_fields schema_data) = Inr field_schemas
          \<and> map_of (milvus c') k =
              Some \<lparr>col_schema = rebuilt_schema schema_data field_schemas,
                    col_indexes = restored_indexes paths c\<rparr>))"
proof (cases "find_path ''/schema.json'' paths")
  case None
  then show ?thesis
    using assms by (auto simp: restore_collection_def Let_def)
next
  case (Some f)
  let ?c = "py_print (''Processing collection: '' @ k) c"
  from assms Some obtain schema_data field_schemas where
    d: "download_file f c = Some (SchemaDoc schema_data)"
    and cf: "convert_fields (sd_fields schema_data) = Inr field_schemas"
    by (auto simp: restore_collection_def Let_def split: option.splits s3_object.splits sum.splits)
  let ?schema = "rebuilt_schema schema_data field_schemas"
  let ?c1 = "if has_collection k ?c
             then drop_collection k (py_print (''Collection '' @ k @ '' already exists, dropping it'') ?c)
             else ?c"
  let ?c2 = "py_print (''Creating collection '' @ k) ?c1"
  have r: "then_py (Collection k ?schema ?c2)
             (\<lambda>c3. then_py (restore_indexes k paths c3)
                (\<lambda>c4. Ok (py_print (''Collection '' @ k @ '' restored successfully'') c4))) = Ok c'"
    using assms
    by (simp only: restore_collection_def Let_def fst_conv snd_conv Some option.case
        download_file_print d s3_object.case cf sum.case rebuilt_schema_def)
  then obtain c3 where c3: "Collection k ?schema ?c2 = Ok c3"
    by (cases "Collection k ?schema ?c2") simp_all
  with r obtain c4 where c4: "restore_indexes k paths c3 = Ok c4"
    and c': "c' = py_print (''Collection '' @ k @ '' restored successfully'') c4"
    by (cases "restore_indexes k paths c3") auto
  have free: "map_of (milvus ?c2) k = None"
    by (simp add: has_collection_def)
  have s2: "s3_objects ?c2 = s3_objects c" "s3_exists ?c2 = s3_exists c"
    "\<forall>n. n \<noteq> k \<longrightarrow> map_of (milvus ?c2) n = map_of (milvus c) n"
    by simp_all
  from Collection_Ok [OF c3] free s2
  have s3: "s3_objects c3 = s3_objects c" "s3_exists c3 = s3_exists c"
    "\<forall>n. n \<noteq> k \<longrightarrow> map_of (milvus c3) n = map_of (milvus c) n"
    "map_of (milvus c3) k = Some \<lparr>col_schema = ?schema, col_indexes = []\<rparr>"
    by simp_all
  have ri: "restored_indexes paths c3 = restored_indexes paths c"
    using s3(1) by (rule same_objects)
  from restore_indexes_Ok [OF c4 s3(4)] s3 ri
  have s4: "s3_objects c4 = s3_objects c" "s3_exists c4 = s3_exists c"
    "\<forall>n. n \<noteq> k \<longrightarrow> map_of (milvus c4) n = map_of (milvus c) n"
    "map_of (milvus c4) k = Some \<lparr>col_schema = ?schema, col_indexes = restored_indexes paths c\<rparr>"
    by simp_all
  show ?thesis
    using s4 d cf Some by (simp add: c')
qed


text \<open>What a round leaves alone, however it ends.\<close>

lemma state_of_then_py:
  "state_of (then_py r f) = (case r of Ok s \<Rightarrow> state_of (f s) | Raise e s \<Rightarrow> s | SysExit n s \<Rightarrow> s)"
  by (cases r) (simp_all add: then_py_def)

lemma Collection_frame:
  "s3_objects (state_of (Collection n schema c)) = s3_objects c
   \<and> (k \<noteq> n \<longrightarrow> map_of (milvus (state_of (Collection n schema c))) k = map_of (milvus c) k)"
  by (simp add: Collection_def map_add_def split: option.splits)

lemma create_one_index_frame:
  "s3_objects (state_of (create_one_index n ix c)) = s3_objects c
   \<and> (k \<noteq> n \<longrightarrow> map_of (milvus (state_of (create_one_index n ix c))) k = map_of (milvus c) k)"
  by (simp add: create_one_index_def create_index_def update_conv' split: option.splits)

lemma create_indexes_frame:
  "s3_objects (state_of (for_each (create_one_index n) ixs c)) = s3_objects c
   \<and> (k \<noteq> n \<longrightarrow> map_of (milvus (state_of (for_each (create_one_index n) ixs c))) k = map_of (milvus c) k)"
proof (induction ixs arbitrary: c)
  case Nil
  then show ?case by simp
next
  case (Cons ix ixs)
  show ?case
  proof (cases "create_one_index n ix c")
    case (Ok c1)
    have "s3_objects c1 = s3_objects c" "k \<noteq> n \<Longrightarrow> map_of (milvus c1) k = map_of (milvus c) k"
      using create_one_index_frame [of n ix c k] by (simp_all add: Ok)
    then show ?thesis
      using Cons.IH [of c1] by (simp add: Ok)
  next
    case (Raise e c1)
    then show ?thesis
      using create_one_index_frame [of n ix c k] by simp
  next
    case (SysExit m c1)
    then show ?thesis
      using create_one_index_frame [of n ix c k] by simp
  qed
qed

lemma restore_indexes_frame:
  "s3_objects (state_of (restore_indexes n paths c)) = s3_objects c
   \<and> (k \<noteq> n \<longrightarrow> map_of (milvus (state_of (restore_indexes n paths c))) k = map_of (milvus c) k)"
  using create_indexes_frame [of n _ c k]
  by (simp add: restore_indexes_def split: option.splits s3_object.splits)

lemma restore_collection_frame:
  "s3_objects (state_of (restore_collection (n, paths) c)) = s3_objects c
   \<and> (k \<noteq> n \<longrightarrow> map_of (milvus (state_of (restore_collection (n, paths) c))) k = map_of (milvus c) k)"
proof -
  let ?c = "py_print (''Processing collection: '' @ n) c"
  have drop: "s3_objects (drop_collection n x) = s3_objects x"
    "k \<noteq> n \<Longrightarrow> map_of (milvus (drop_collection n x)) k = map_of (milvus x) k" for x
    by simp_all
  have tail: "s3_objects (state_of (then_py (Collection n schema x)
                 (\<lambda>c3. then_py (restore_indexes n paths c3)
                    (\<lambda>c4. Ok (py_print m c4))))) = s3_objects x
     \<and> (k \<noteq> n \<longrightarrow> map_of (milvus (state_of (then_py (Collection n schema x)
                 (\<lambda>c3. then_py (restore_indexes n paths c3)
                    (\<lambda>c4. Ok (py_print m c4)))))) k = map_of (milvus x) k)" for schema x m
  proof (cases "Collection n schema x")
    case (Ok c3)
    have c3: "s3_objects c3 = s3_objects x" "k \<noteq> n \<Longrightarrow> map_of (milvus c3) k = map_of (milvus x) k"
      using Collection_frame [of n schema x k] by (simp_all add: Ok)
    show ?thesis
    proof (cases "restore_indexes n paths c3")
      case o: (Ok c4)
      then show ?thesis
        using restore_indexes_frame [of n paths c3 k] c3 by (simp add: Ok state_of_then_py)
    next
      case (Raise e c4)
      then show ?thesis
        using restore_indexes_frame [of n paths c3 k] c3 by (simp add: Ok state_of_then_py)
    next
      case (SysExit j c4)
      then show ?thesis
        using restore_indexes_frame [of n paths c3 k] c3 by (simp add: Ok state_of_then_py)
    qed
  next
    case (Raise e c3)
    then show ?thesis
      using Collection_frame [of n schema x k] by (simp add: state_of_then_py)
  next
    case (SysExit j c3)
    then show ?thesis
      using Collection_frame [of n schema x k] by (simp add: state_of_then_py)
  qed
  show ?thesis
    using tail by (simp add: restore_collection_def Let_def split: option.splits s3_object.splits sum.splits)
qed

lemma restore_loop_frame:
  "s3_objects (state_of (for_each restore_collection items c)) = s3_objects c
   \<and> (k \<notin> fst ` set items \<longrightarrow>
        map_of (milvus (state_of (for_each restore_collection items c))) k = map_of (milvus c) k)"
proof (induction items arbitrary: c)
  case Nil
  then show ?case by simp
next
  case (Cons item items)
  obtain n paths where item: "item = (n, paths)" by (cases item)
  note one = restore_collection_frame [of n paths c k]
  show ?case
  proof (cases "restore_collection (n, paths) c")
    case (Ok c1)
    then show ?thesis
      using one Cons.IH [of c1] by (simp add: item)
  next
    case (Raise e c1)
    then show ?thesis
      using one by (simp add: item then_py_def)
  next
    case (SysExit j c1)
    then show ?thesis
      using one by (simp add: item then_py_def)
  qed
qed

text \<open>A name of the manifest without a schema document: its round only prints.\<close>

lemma restore_loop_skips:
  assumes "distinct (map fst items)" and "(k, paths) \<in> set items"
    and "find_path ''/schema.json'' paths = None"
  shows "map_of (milvus (state_of (for_each restore_collection items c))) k = map_of (milvus c) k"
  using assms
proof (induction items arbitrary: c)
  case Nil
  then show ?case by simp
next
  case (Cons item items)
  obtain n ps where item: "item = (n, ps)" by (cases item)
  show ?case
  proof (cases "n = k")
    case True
    then have ps: "ps = paths"
      using Cons.prems(1,2) by (auto simp: item rev_image_eqI)
    have notin: "k \<notin> fst ` set items"
      using Cons.prems(1) True by (simp add: item)
    have r: "restore_collection (k, paths) c
        = Ok (py_print (''Schema file not found for '' @ k @ '', skipping'')
                (py_print (''Processing collection: '' @ k) c))"
      using Cons.prems(3) by (simp add: restore_collection_def Let_def)
    show ?thesis
      using restore_loop_frame [of items _ k] notin by (simp add: item True ps r)
  next
    case False
    then have mem: "(k, paths) \<in> set items"
      using Cons.prems(2) by (auto simp: item)
    have d: "distinct (map fst items)"
      using Cons.prems(1) by simp
    note one = restore_collection_frame [of n ps c k]
    show ?thesis
    proof (cases "restore_collection (n, ps) c")
      case (Ok c1)
      then show ?thesis
        using one False Cons.IH [OF d mem Cons.prems(3), of c1] by (simp add: item)
    next
      case (Raise e c1)
      then show ?thesis
        using one False by (simp add: item then_py_def)
    next
      case (SysExit j c1)
      then show ?thesis
        using one False by (simp add: item then_py_def)
    qed
  qed
qed

text \<open>The conversion gives a plain field back as it was backed up.\<close>

lemma plain_field_roundtrip:
  assumes "plain_field field"
  shows "lookup_dtype dtype_map (fd_type (field_to_dict field)) = Some (fs_dtype field)"
    and "make_field (field_to_dict field) (fs_dtype field) = field"
proof -
  have t: "lookup_dtype dtype_map ''DataType.INT64'' = Some INT64"
    "lookup_dtype dtype_map ''DataType.FLOAT'' = Some FLOAT"
    "lookup_dtype dtype_map ''DataType.VARCHAR'' = Some VARCHAR"
    "lookup_dtype dtype_map ''DataType.BINARY_VECTOR'' = Some BINARY_VECTOR"
    by code_simp+
  show "lookup_dtype dtype_map (fd_type (field_to_dict field)) = Some (fs_dtype field)"
    using assms t by (auto simp: plain_field_def field_to_dict_def split: if_splits)
  show "make_field (field_to_dict field) (fs_dtype field) = field"
  proof (cases "fs_dtype field = BINARY_VECTOR")
    case True
    then obtain d where "fs_params field = [(''dim'', d)]"
      using assms by (cases "fs_params field") (auto simp: plain_field_def)
    then show ?thesis
      using True by (cases field) (simp add: make_field_def field_to_dict_def get_default_def)
  next
    case False
    then show ?thesis
      using assms by (cases field) (auto simp: plain_field_def make_field_def field_to_dict_def get_default_def)
  qed
qed

lemma convert_plain_fields:
  "list_all plain_field fs \<Longrightarrow> convert_fields (map field_to_dict fs) = Inr fs"
  by (induction fs) (simp_all add: plain_field_roundtrip)

lemma rebuilt_backup_doc: "rebuilt_schema (backup_doc k schema) (cs_fields schema) = schema"
  by (cases schema) (simp add: rebuilt_schema_def backup_doc_def get_default_def)

text \<open>
  A name of the manifest whose schema document is the backup of a schema of plain fields,
  and whose round is reached and completes.
\<close>

lemma restore_loop_restores:
  assumes "distinct (map fst items)" and "(k, paths) \<in> set items"
    and "round_completes k items c"
    and "find_path ''/schema.json'' paths = Some f"
    and "download_file f c = Some (SchemaDoc (backup_doc k schema))"
    and "list_all plain_field (cs_fields schema)"
  shows "map_of (milvus (state_of (for_each restore_collection items c))) k
           = Some \<lparr>col_schema = schema, col_indexes = restored_indexes paths c\<rparr>"
  using assms(1,2,3,5)
proof (induction items arbitrary: c)
  case Nil
  then show ?case by simp
next
  case (Cons item items)
  obtain n ps where item: "item = (n, ps)" by (cases item)
  from Cons.prems(3) obtain c1 where
    c1: "restore_collection (n, ps) c = Ok c1" and rest: "n = k \<or> round_completes k items c1"
    by (cases "restore_collection (n, ps) c") (simp_all add: item)
  note one = restore_collection_Ok [OF c1]
  have same: "s3_objects c1 = s3_objects c"
    using one by simp
  show ?case
  proof (cases "n = k")
    case True
    then have ps: "ps = paths"
      using Cons.prems(1,2) by (auto simp: item rev_image_eqI)
    have notin: "k \<notin> fst ` set items"
      using Cons.prems(1) True by (simp add: item)
    from one assms(4) obtain field_schemas where
      cf: "convert_fields (sd_fields (backup_doc k schema)) = Inr field_schemas"
      and m: "map_of (milvus c1) k =
                Some \<lparr>col_schema = rebuilt_schema (backup_doc k schema) field_schemas,
                      col_indexes = restored_indexes paths c\<rparr>"
      using Cons.prems(4) by (auto simp: True ps)
    have "field_schemas = cs_fields schema"
      using cf convert_plain_fields [OF assms(6)] by (simp add: backup_doc_def)
    then have "map_of (milvus c1) k = Some \<lparr>col_schema = schema, col_indexes = restored_indexes paths c\<rparr>"
      using m by (simp add: rebuilt_backup_doc)
    then show ?thesis
      using restore_loop_frame [of items c1 k] notin by (simp add: item c1)
  next
    case False
    then have mem: "(k, paths) \<in> set items"
      using Cons.prems(2) by (auto simp: item)
    have d: "distinct (map fst items)"
      using Cons.prems(1) by simp
    have rc: "round_completes k items c1"
      using rest False by simp
    have dl: "download_file f c1 = Some (SchemaDoc (backup_doc k schema))"
      using same_objects(1) [OF same, of f] Cons.prems(4) by simp
    have "restored_indexes paths c1 = restored_indexes paths c"
      using same by (rule same_objects)
    then show ?thesis
      using Cons.IH [OF d mem rc dl] by (simp add: item c1)
  qed
qed

lemma add_path_keys:
  "map fst (add_path n key d) = (if n \<in> fst ` set d then map fst d else map fst d @ [n])"
  by (auto simp: add_path_def update_keys map_of_eq_None_iff split: option.splits)

lemma distinct_collection_paths_from:
  "distinct (map fst d) \<Longrightarrow> distinct (map fst (collection_paths_from d keys))"
proof (induction keys arbitrary: d)
  case Nil
  then show ?case by simp
next
  case (Cons key keys)
  have "distinct (map fst (add_path n key d))" for n
    using Cons.prems by (simp add: add_path_keys)
  then show ?case
    using Cons by (simp add: Let_def)
qed

lemma distinct_manifest: "distinct (map fst (manifest path c))"
  by (simp add: manifest_def collection_paths_def distinct_collection_paths_from)

lemma restore_body_state:
  assumes "(k, paths) \<in> set (manifest path c)"
  shows "milvus (state_of (restore_body path c))
           = milvus (state_of (for_each restore_collection (manifest path c) c))"
proof -
  from assms obtain Contents where l: "list_objects_v2 (path @ ''/'') c = Some Contents"
    by (cases "list_objects_v2 (path @ ''/'') c")
       (simp_all add: manifest_def backup_listing_def collection_paths_def)
  then have m: "manifest path c = collection_paths Contents"
    by (simp add: manifest_def backup_listing_def)
  have "Contents \<noteq> []"
    using assms m by (auto simp: collection_paths_def)
  then show ?thesis
    by (cases "for_each restore_collection (collection_paths Contents) c")
       (simp_all add: restore_body_def l m then_py_def)
qed

text \<open>
  C3, amended. For a name of the backup manifest whose documents include a
  \<^verbatim>\<open>schema.json\<close> that is the backup of a schema (of plain fields: the slips of the type
  conversion are left aside), when the restore loop reaches the round of that name and the
  round completes without an exception, the database holds under that name, when the
  restore has ended (however the later rounds end), exactly the backed-up schema with the
  indexes of the backed-up index document (none if there is none), whatever collection
  of that name existed before: the old collection was dropped, not merged. A name of the
  manifest without a \<^verbatim>\<open>schema.json\<close> is skipped: what the database holds under that name
  when the restore has ended is what it held before.
\<close>

theorem destructive_overwrite:
  assumes "(k, paths) \<in> set (manifest path c)"
  shows "(find_path ''/schema.json'' paths = None \<longrightarrow>
            map_of (milvus (state_of (restore_body path c))) k = map_of (milvus c) k)
       \<and> (find_path ''/schema.json'' paths = Some f
            \<and> download_file f c = Some (SchemaDoc (backup_doc k schema))
            \<and> list_all plain_field (cs_fields schema)
            \<and> round_completes k (manifest path c) c \<longrightarrow>
            map_of (milvus (state_of (restore_body path c))) k
              = Some \<lparr>col_schema = schema, col_indexes = restored_indexes paths c\<rparr>)"
  using restore_loop_skips [OF distinct_manifest assms]
    restore_loop_restores [OF distinct_manifest assms]
  by (simp add: restore_body_state [OF assms])

theorem destructive_overwrite_witness:
  "(''notes'', [''backup-20240101120000/notes/indexes.json'', ''backup-20240101120000/notes/schema.json''])
      \<in> set (manifest ''backup-20240101120000'' notes_cluster)
   \<and> find_path ''/schema.json''
        [''backup-20240101120000/notes/indexes.json'', ''backup-20240101120000/notes/schema.json'']
       = Some ''backup-20240101120000/notes/schema.json''
   \<and> download_file ''backup-20240101120000/notes/schema.json'' notes_cluster
       = Some (SchemaDoc (backup_doc ''notes'' notes_schema))
   \<and> list_all plain_field (cs_fields notes_schema)
   \<and> round_completes ''notes'' (manifest ''backup-20240101120000'' notes_cluster) notes_cluster
   \<and> map_of (milvus notes_cluster) ''notes'' = Some old_docs
   \<and> map_of (milvus (state_of (restore_body ''backup-20240101120000'' notes_cluster))) ''notes''
       = Some \<lparr>col_schema = notes_schema, col_indexes = [notes_index]\<rparr>
   \<and> (''docs'', [''backup-20240101120000/docs/indexes.json''])
      \<in> set (manifest ''backup-20240101120000'' orphan_cluster)
   \<and> find_path ''/schema.json'' [''backup-20240101120000/docs/indexes.json''] = None
   \<and> map_of (milvus (state_of (restore_body ''backup-20240101120000'' orphan_cluster))) ''docs''
       = Some old_docs"
proof -
  let ?ps = "[''backup-20240101120000/notes/indexes.json'', ''backup-20240101120000/notes/schema.json'']"
  have h1: "(''notes'', ?ps) \<in> set (manifest ''backup-20240101120000'' notes_cluster)"
    by code_simp
  have h2: "find_path ''/schema.json'' ?ps = Some ''backup-20240101120000/notes/schema.json''"
    by code_simp
  have h3: "download_file ''backup-20240101120000/notes/schema.json'' notes_cluster
       = Some (SchemaDoc (backup_doc ''notes'' notes_schema))"
    by (simp add: download_file_def notes_cluster_def)
  have h4: "list_all plain_field (cs_fields notes_schema)"
    by (simp add: plain_field_def notes_schema_def)
  have h5: "round_completes ''notes'' (manifest ''backup-20240101120000'' notes_cluster) notes_cluster"
    by code_simp
  have h6: "map_of (milvus notes_cluster) ''notes'' = Some old_docs"
    by (simp add: notes_cluster_def)
  have ix: "restored_indexes ?ps notes_cluster = [notes_index]"
    by code_simp
  have g1: "(''docs'', [''backup-20240101120000/docs/indexes.json''])
      \<in> set (manifest ''backup-20240101120000'' orphan_cluster)"
    by code_simp
  have g2: "find_path ''/schema.json'' [''backup-20240101120000/docs/indexes.json''] = None"
    by code_simp
  have g3: "map_of (milvus orphan_cluster) ''docs'' = Some old_docs"
    by (simp add: orphan_cluster_def)
  show ?thesis
    using destructive_overwrite [OF h1, of "''backup-20240101120000/notes/schema.json''" notes_schema]
      destructive_overwrite [OF g1] h1 h2 h3 h4 h5 h6 ix g1 g2 g3
    by simp
qed

text \<open>
  C3 as stated fails, in two ways. A backup prefix that holds only \<^verbatim>\<open>docs/indexes.json\<close>
  has the collection name \<^verbatim>\<open>docs\<close>, a collection \<^verbatim>\<open>docs\<close> exists, and the restore skips it
  (no schema document), so the pre-existing collection is still there afterwards. And when
  the round of an earlier name ends with an exception (here the index document of
  \<^verbatim>\<open>audit\<close> names a field that \<^verbatim>\<open>audit\<close> does not have), the handler around the loop ends
  the restore: the round of \<^verbatim>\<open>docs\<close>, which has a schema document, is never reached and the
  pre-existing \<^verbatim>\<open>docs\<close> is still there.
\<close>

theorem overwrite_counterexample:
  "map fst (manifest ''backup-20240101120000'' orphan_cluster) = [''docs'']
   \<and> has_collection ''docs'' orphan_cluster
   \<and> restore_py ''backup-20240101120000'' (\<lambda>i. True) orphan_cluster
       = (0, orphan_cluster
               \<lparr>logs := [''Waiting for Milvus to be ready...'', ''Connected to Milvus'',
                         ''Processing collection: docs'', ''Schema file not found for docs, skipping'',
                         ''Restore completed'']\<rparr>)
   \<and> map_of (milvus (snd (restore_py ''backup-20240101120000'' (\<lambda>i. True) orphan_cluster))) ''docs''
       = Some old_docs
   \<and> manifest ''backup-20240101120000'' broken_cluster
       = [(''audit'', [''backup-20240101120000/audit/indexes.json'',
                       ''backup-20240101120000/audit/schema.json'']),
          (''docs'', [''backup-20240101120000/docs/schema.json''])]
   \<and> map_of (milvus broken_cluster) ''docs'' = Some old_docs
   \<and> logs (snd (restore_py ''backup-20240101120000'' (\<lambda>i. True) broken_cluster))
       = [''Waiting for Milvus to be ready...'', ''Connected to Milvus'',
          ''Processing collection: audit'', ''Creating collection audit'',
          ''Creating index on vec with type IVF_FLAT'',
          ''Error during restoration: field not found'']
   \<and> map_of (milvus (snd (restore_py ''backup-20240101120000'' (\<lambda>i. True) broken_cluster))) ''docs''
       = Some old_docs"
  by code_simp

section \<open>The layout of a backup\<close>

subsection \<open>Keys\<close>

lemma digit_not_slash: "k < 10 \<Longrightarrow> digit k \<noteq> CHR ''/''"
proof -
  assume "k < 10"
  then have "digit k \<in> set ''0123456789''"
    unfolding digit_def by (intro nth_mem) simp
  then show ?thesis by auto
qed

lemma dec_slash_free: "CHR ''/'' \<notin> set (dec n)"
proof (induction n rule: dec.induct)
  case (1 n)
  show ?case
  proof (cases "n < 10")
    case True
    then show ?thesis
      using digit_not_slash [of n] by (subst dec.simps) auto
  next
    case False
    have "digit (n mod 10) \<noteq> CHR ''/''"
      by (rule digit_not_slash) simp
    then show ?thesis
      using False "1.IH" by (subst dec.simps) auto
  qed
qed

lemma zpad_slash_free: "CHR ''/'' \<notin> set (zpad w (dec n))"
  by (simp add: zpad_def dec_slash_free)

lemma slash_free_date_fmt: "slash_free (date_fmt clk)"
  by (simp add: slash_free_def date_fmt_def zpad_slash_free)

lemma py_split_no_sep: "c \<notin> set s \<Longrightarrow> py_split c s = [s]"
  by (induction s) auto

lemma py_split_append: "c \<notin> set a \<Longrightarrow> py_split c (a @ c # b) = a # py_split c b"
  by (induction a) auto

lemma py_split_layout_key:
  assumes "slash_free stamp" and "slash_free n" and "slash_free fl"
  shows "py_split CHR ''/'' (layout_key stamp n fl) = [''backup-'' @ stamp, n, fl]"
proof -
  have a: "CHR ''/'' \<notin> set (''backup-'' @ stamp)"
    using assms(1) by (simp add: slash_free_def)
  have "layout_key stamp n fl = (''backup-'' @ stamp) @ CHR ''/'' # (n @ CHR ''/'' # fl)"
    by (simp add: layout_key_def)
  then show ?thesis
    using py_split_append [OF a] py_split_append [of "CHR ''/''" n fl] py_split_no_sep [of "CHR ''/''" fl]
      assms(2,3)
    by (simp add: slash_free_def)
qed

lemma schema_key_layout: "schema_key stamp n = layout_key stamp n ''schema.json''"
  by (simp add: schema_key_def layout_key_def)

lemma indexes_key_layout: "indexes_key stamp n = layout_key stamp n ''indexes.json''"
  by (simp add: indexes_key_def layout_key_def)

lemma layout_key_inj [simp]: "(layout_key stamp n fl = layout_key stamp m fl) = (n = m)"
  by (simp add: layout_key_def)

lemma endswith_iff: "endswith s suf = (\<exists>pre. s = pre @ suf)"
proof
  assume "endswith s suf"
  then have "s = take (length s - length suf) s @ suf"
    by (metis append_take_drop_id endswith_def)
  then show "\<exists>pre. s = pre @ suf" ..
next
  assume "\<exists>pre. s = pre @ suf"
  then show "endswith s suf"
    by (auto simp: endswith_def)
qed

lemma schema_not_indexes: "a @ ''/schema.json'' \<noteq> b @ ''/indexes.json''"
proof
  assume "a @ ''/schema.json'' = b @ ''/indexes.json''"
  then have "rev (a @ ''/schema.json'') = rev (b @ ''/indexes.json'')"
    by simp
  then show False by simp
qed

lemma layout_key_files [simp]:
  "layout_key stamp n ''schema.json'' \<noteq> layout_key stamp m ''indexes.json''"
  "layout_key stamp m ''indexes.json'' \<noteq> layout_key stamp n ''schema.json''"
  using schema_not_indexes [of "''backup-'' @ stamp @ ''/'' @ n" "''backup-'' @ stamp @ ''/'' @ m"]
  by (auto simp: layout_key_def)

lemma layout_key_endswith:
  "endswith (layout_key stamp n ''schema.json'') ''/schema.json''"
  "endswith (layout_key stamp n ''indexes.json'') ''/indexes.json''"
  "\<not> endswith (layout_key stamp n ''schema.json'') ''/indexes.json''"
  "\<not> endswith (layout_key stamp n ''indexes.json'') ''/schema.json''"
proof -
  show "endswith (layout_key stamp n ''schema.json'') ''/schema.json''"
    unfolding endswith_iff by (rule exI [of _ "''backup-'' @ stamp @ ''/'' @ n"]) (simp add: layout_key_def)
  show "endswith (layout_key stamp n ''indexes.json'') ''/indexes.json''"
    unfolding endswith_iff by (rule exI [of _ "''backup-'' @ stamp @ ''/'' @ n"]) (simp add: layout_key_def)
  show "\<not> endswith (layout_key stamp n ''schema.json'') ''/indexes.json''"
  proof
    assume "endswith (layout_key stamp n ''schema.json'') ''/indexes.json''"
    then obtain pre where "layout_key stamp n ''schema.json'' = pre @ ''/indexes.json''"
      unfolding endswith_iff by blast
    then have "(''backup-'' @ stamp @ ''/'' @ n) @ ''/schema.json'' = pre @ ''/indexes.json''"
      by (simp add: layout_key_def)
    then show False
      using schema_not_indexes by blast
  qed
  show "\<not> endswith (layout_key stamp n ''indexes.json'') ''/schema.json''"
  proof
    assume "endswith (layout_key stamp n ''indexes.json'') ''/schema.json''"
    then obtain pre where "layout_key stamp n ''indexes.json'' = pre @ ''/schema.json''"
      unfolding endswith_iff by blast
    then have "pre @ ''/schema.json'' = (''backup-'' @ stamp @ ''/'' @ n) @ ''/indexes.json''"
      by (simp add: layout_key_def)
    then show False
      using schema_not_indexes by blast
  qed
qed

lemma layout_key_startswith: "startswith (layout_key stamp n fl) (''backup-'' @ stamp @ ''/'')"
  by (simp add: startswith_def layout_key_def)

lemma find_path_none: "(\<forall>p\<in>set ps. \<not> endswith p suf) \<Longrightarrow> find_path suf ps = None"
  by (induction ps) simp_all

lemma find_path_unique:
  assumes "q \<in> set ps" and "endswith q suf" and "\<forall>p\<in>set ps. endswith p suf \<longrightarrow> p = q"
  shows "find_path suf ps = Some q"
  using assms(1,3)
proof (induction ps)
  case Nil
  then show ?case by simp
next
  case (Cons p ps)
  show ?case
  proof (cases "endswith p suf")
    case True
    then have "p = q"
      using Cons.prems(2) by simp
    then show ?thesis
      using True by simp
  next
    case False
    then have "q \<in> set ps"
      using Cons.prems(1) assms(2) by auto
    moreover have "\<forall>p\<in>set ps. endswith p suf \<longrightarrow> p = q"
      using Cons.prems(2) by simp
    ultimately have "find_path suf ps = Some q"
      by (rule Cons.IH)
    then show ?thesis
      using False by simp
  qed
qed

subsection \<open>What the backup writes\<close>

lemma update_fresh:
  "k \<notin> fst ` set al \<Longrightarrow> AList.update k obj al = al @ [(k, obj)]"
  by (induction al) auto

lemma backup_objects_keys:
  "set (map fst (backup_objects stamp n col))
     \<subseteq> {layout_key stamp n ''schema.json'', layout_key stamp n ''indexes.json''}"
  by (simp add: backup_objects_def)

lemma backup_collection_fresh:
  assumes "s3_exists c" and "map_of (milvus c) n = Some col"
    and "layout_key stamp n ''schema.json'' \<notin> set (map fst (s3_objects c))"
    and "layout_key stamp n ''indexes.json'' \<notin> set (map fst (s3_objects c))"
  shows "\<exists>c'. backup_collection stamp n c = Ok c' \<and> milvus c' = milvus c \<and> s3_exists c'
           \<and> s3_objects c' = s3_objects c @ backup_objects stamp n col"
  using assms
  by (simp add: backup_collection_def Let_def upload_file_def update_fresh backup_objects_def
      backup_doc_def schema_key_layout indexes_key_layout)

lemma backup_step_fresh:
  assumes "s3_exists c" and "map_of (milvus c) n = Some col"
    and "layout_key stamp n ''schema.json'' \<notin> set (map fst (s3_objects c))"
    and "layout_key stamp n ''indexes.json'' \<notin> set (map fst (s3_objects c))"
  shows "\<exists>c'. backup_step stamp n c = Ok c' \<and> milvus c' = milvus c \<and> s3_exists c'
           \<and> s3_objects c' = s3_objects c @ backup_objects stamp n col"
proof -
  let ?c = "py_print (''Backing up collection: '' @ n) c"
  have "\<exists>c'. backup_collection stamp n ?c = Ok c' \<and> milvus c' = milvus ?c \<and> s3_exists c'
           \<and> s3_objects c' = s3_objects ?c @ backup_objects stamp n col"
    using assms by (intro backup_collection_fresh) simp_all
  then show ?thesis
    by (auto simp: backup_step_def)
qed

lemma backup_loop_objects:
  assumes "s3_exists c" and "distinct ns" and "\<forall>n\<in>set ns. map_of (milvus c) n \<noteq> None"
    and "\<forall>n\<in>set ns. layout_key stamp n ''schema.json'' \<notin> set (map fst (s3_objects c))
                    \<and> layout_key stamp n ''indexes.json'' \<notin> set (map fst (s3_objects c))"
  shows "\<exists>c'. for_each (backup_step stamp) ns c = Ok c' \<and> milvus c' = milvus c \<and> s3_exists c'
           \<and> s3_objects c' = s3_objects c
               @ concat (map (\<lambda>n. backup_objects stamp n (the (map_of (milvus c) n))) ns)"
  using assms
proof (induction ns arbitrary: c)
  case Nil
  then show ?case by simp
next
  case (Cons n ns)
  from Cons.prems(3) obtain col where col: "map_of (milvus c) n = Some col"
    by auto
  from Cons.prems(4) have fresh:
    "layout_key stamp n ''schema.json'' \<notin> set (map fst (s3_objects c))"
    "layout_key stamp n ''indexes.json'' \<notin> set (map fst (s3_objects c))"
    by simp_all
  obtain c1 where c1: "backup_step stamp n c = Ok c1" "milvus c1 = milvus c" "s3_exists c1"
      "s3_objects c1 = s3_objects c @ backup_objects stamp n col"
    using backup_step_fresh [OF Cons.prems(1) col fresh] by blast
  have d: "distinct ns" and nn: "n \<notin> set ns"
    using Cons.prems(2) by simp_all
  have i3: "\<forall>m\<in>set ns. map_of (milvus c1) m \<noteq> None"
    using Cons.prems(3) c1(2) by simp
  have i4: "\<forall>m\<in>set ns. layout_key stamp m ''schema.json'' \<notin> set (map fst (s3_objects c1))
                    \<and> layout_key stamp m ''indexes.json'' \<notin> set (map fst (s3_objects c1))"
  proof
    fix m assume m: "m \<in> set ns"
    then have "m \<noteq> n" using nn by auto
    then have "layout_key stamp m ''schema.json'' \<notin> set (map fst (backup_objects stamp n col))"
      "layout_key stamp m ''indexes.json'' \<notin> set (map fst (backup_objects stamp n col))"
      using backup_objects_keys [of stamp n col] by auto
    then show "layout_key stamp m ''schema.json'' \<notin> set (map fst (s3_objects c1))
                    \<and> layout_key stamp m ''indexes.json'' \<notin> set (map fst (s3_objects c1))"
      using Cons.prems(4) m by (simp add: c1(4))
  qed
  from Cons.IH [OF c1(3) d i3 i4] obtain c' where
    c': "for_each (backup_step stamp) ns c1 = Ok c'" "milvus c' = milvus c1" "s3_exists c'"
      "s3_objects c' = s3_objects c1
         @ concat (map (\<lambda>n. backup_objects stamp n (the (map_of (milvus c1) n))) ns)"
    by blast
  show ?case
    using c1 c' col by simp
qed

lemma by_name_or_by_item:
  assumes "distinct (map fst M)"
  shows "concat (map (\<lambda>n. f n (the (map_of M n))) (map fst M)) = concat (map (\<lambda>(n, col). f n col) M)"
proof -
  have "f (fst p) (the (map_of M (fst p))) = (case p of (n, col) \<Rightarrow> f n col)" if "p \<in> set M" for p
  proof -
    obtain n col where p: "p = (n, col)" by (cases p)
    then have "map_of M n = Some col"
      using assms that by simp
    then show ?thesis by (simp add: p)
  qed
  then have "map (\<lambda>n. f n (the (map_of M n))) (map fst M) = map (\<lambda>(n, col). f n col) M"
    by (simp add: comp_def)
  then show ?thesis
    by (simp only:)
qed

lemma backup_py_objects:
  assumes "s3_exists c" and "connects ok" and "distinct (list_collections c)"
    and "\<not> list_ex (\<lambda>key. startswith key (''backup-'' @ stamp @ ''/'')) (map fst (s3_objects c))"
  shows "fst (backup_py stamp ok c) = 0 \<and> milvus (snd (backup_py stamp ok c)) = milvus c
       \<and> s3_exists (snd (backup_py stamp ok c))
       \<and> s3_objects (snd (backup_py stamp ok c))
           = s3_objects c @ concat (map (\<lambda>(n, col). backup_objects stamp n col) (milvus c))"
proof -
  obtain c1 where c1: "connect_retry ok c = Ok c1" "milvus c1 = milvus c"
    "s3_exists c1 = s3_exists c" "s3_objects c1 = s3_objects c"
    using assms(2) by (rule connect_retry_Ok)
  let ?ns = "list_collections c1"
  let ?c2 = "py_print (''Collections to backup: '' @ py_list_str ?ns) c1"
  have ns: "?ns = map fst (milvus c)"
    by (simp add: list_collections_def c1(2))
  have fresh: "layout_key stamp n fl \<notin> set (map fst (s3_objects c))" for n fl
    using assms(4) layout_key_startswith [of stamp n fl] by (auto simp: list_ex_iff)
  have "\<exists>c'. for_each (backup_step stamp) ?ns ?c2 = Ok c' \<and> milvus c' = milvus ?c2 \<and> s3_exists c'
           \<and> s3_objects c' = s3_objects ?c2
               @ concat (map (\<lambda>n. backup_objects stamp n (the (map_of (milvus ?c2) n))) ?ns)"
  proof (rule backup_loop_objects)
    show "s3_exists ?c2" using assms(1) c1(3) by simp
    show "distinct ?ns" using assms(3) by (simp add: list_collections_def c1(2))
    show "\<forall>n\<in>set ?ns. map_of (milvus ?c2) n \<noteq> None"
      by (simp add: ns c1(2) map_of_eq_None_iff)
    show "\<forall>n\<in>set ?ns. layout_key stamp n ''schema.json'' \<notin> set (map fst (s3_objects ?c2))
                    \<and> layout_key stamp n ''indexes.json'' \<notin> set (map fst (s3_objects ?c2))"
      using fresh by (simp add: c1(4))
  qed
  then obtain c3 where c3: "for_each (backup_step stamp) ?ns ?c2 = Ok c3" "milvus c3 = milvus c"
      "s3_exists c3"
      "s3_objects c3 = s3_objects c
         @ concat (map (\<lambda>n. backup_objects stamp n (the (map_of (milvus c) n))) (map fst (milvus c)))"
    using c1 ns by auto
  have d: "distinct (map fst (milvus c))"
    using assms(3) by (simp add: list_collections_def)
  have "s3_objects c3 = s3_objects c @ concat (map (\<lambda>(n, col). backup_objects stamp n col) (milvus c))"
    by (simp only: c3(4) by_name_or_by_item [OF d, of "backup_objects stamp"])
  then show ?thesis
    using c3 by (simp add: backup_py_def c1(1) Let_def)
qed

subsection \<open>What the restore reads\<close>

lemma map_of_add_path:
  "map_of (add_path m key d) n
     = (if n = m then Some (get_default (map_of d m) [] @ [key]) else map_of d n)"
  by (auto simp: add_path_def get_default_def update_conv' map_add_def split: option.splits)

lemma map_of_collection_paths_from:
  "map_of (collection_paths_from d keys) n =
     (if filter (filed_under n) keys = [] then map_of d n
      else Some (get_default (map_of d n) [] @ filter (filed_under n) keys))"
proof (induction keys arbitrary: d)
  case Nil
  then show ?case by simp
next
  case (Cons key keys)
  show ?case
  proof (cases "3 \<le> length (py_split CHR ''/'' key)")
    case True
    let ?m = "py_split CHR ''/'' key ! 1"
    have step: "collection_paths_from d (key # keys) = collection_paths_from (add_path ?m key d) keys"
      using True by (simp add: Let_def)
    show ?thesis
    proof (cases "?m = n")
      case m: True
      have f: "filed_under n key"
        using True m by (simp add: filed_under_def)
      have "map_of (add_path ?m key d) n = Some (get_default (map_of d n) [] @ [key])"
        using m by (simp add: map_of_add_path)
      then show ?thesis
        using f by (simp only: step Cons.IH) (simp add: get_default_def)
    next
      case m: False
      have f: "\<not> filed_under n key"
        using m by (simp add: filed_under_def)
      have "map_of (add_path ?m key d) n = map_of d n"
        using m by (simp add: map_of_add_path)
      then show ?thesis
        using f by (simp only: step Cons.IH) simp
    qed
  next
    case False
    have step: "collection_paths_from d (key # keys) = collection_paths_from d keys"
      using False by (simp add: Let_def)
    have f: "\<not> filed_under n key"
      using False by (simp add: filed_under_def)
    show ?thesis
      using f by (simp only: step Cons.IH) simp
  qed
qed

lemma map_of_manifest:
  "map_of (manifest path c) n =
     (if filter (filed_under n) (backup_listing path c) = [] then None
      else Some (filter (filed_under n) (backup_listing path c)))"
  by (simp add: manifest_def collection_paths_def map_of_collection_paths_from get_default_def)

lemma backup_listing_fresh:
  assumes "s3_exists c" and "s3_objects c = old @ new"
    and "\<not> list_ex (\<lambda>key. startswith key (path @ ''/'')) (map fst old)"
    and "list_all (\<lambda>key. startswith key (path @ ''/'')) (map fst new)"
    and "length new \<le> 1000"
  shows "backup_listing path c = sort (map fst new)"
proof -
  let ?P = "\<lambda>key. startswith key (path @ ''/'')"
  have a: "filter ?P (map fst old) = []"
    using assms(3) by (simp add: list_ex_iff filter_empty_conv)
  have b: "filter ?P (map fst new) = map fst new"
    using assms(4) by (simp add: list_all_iff)
  have "filter ?P (map fst (s3_objects c)) = map fst new"
    unfolding assms(2) map_append filter_append a b by simp
  then show ?thesis
    using assms(1,5) by (simp add: backup_listing_def list_objects_v2_def)
qed

lemma filed_under_layout_key:
  assumes "slash_free stamp" and "slash_free m" and "slash_free fl"
  shows "filed_under n (layout_key stamp m fl) = (m = n)"
  by (simp add: filed_under_def py_split_layout_key [OF assms])

lemma filter_backup_objects:
  assumes "slash_free stamp" and "slash_free m"
  shows "filter (filed_under n) (map fst (backup_objects stamp m cm))
           = (if m = n then map fst (backup_objects stamp m cm) else [])"
proof -
  have "filed_under n (layout_key stamp m ''schema.json'') = (m = n)"
    using assms by (intro filed_under_layout_key) (simp_all add: slash_free_def)
  moreover have "filed_under n (layout_key stamp m ''indexes.json'') = (m = n)"
    using assms by (intro filed_under_layout_key) (simp_all add: slash_free_def)
  ultimately show ?thesis
    by (cases "m = n") (simp_all add: backup_objects_def)
qed

lemma filter_new_keys:
  assumes "distinct (map fst M)" and "list_all slash_free (map fst M)" and "slash_free stamp"
  shows "filter (filed_under n) (map fst (concat (map (\<lambda>(m, cm). backup_objects stamp m cm) M)))
           = (case map_of M n of None \<Rightarrow> [] | Some col \<Rightarrow> map fst (backup_objects stamp n col))"
  using assms(1,2)
proof (induction M)
  case Nil
  then show ?case by simp
next
  case (Cons p M)
  obtain m cm where p: "p = (m, cm)" by (cases p)
  have sm: "slash_free m" and d: "distinct (map fst M)" and l: "list_all slash_free (map fst M)"
    and notin: "m \<notin> fst ` set M"
    using Cons.prems by (simp_all add: p)
  note one = filter_backup_objects [OF assms(3) sm, of n cm]
  show ?case
  proof (cases "m = n")
    case True
    then have "map_of M n = None"
      using notin by (simp add: map_of_eq_None_iff)
    then show ?thesis
      using one True Cons.IH [OF d l] by (simp add: p)
  next
    case False
    then show ?thesis
      using one Cons.IH [OF d l] by (simp add: p)
  qed
qed

lemma map_of_backup_objects_other:
  assumes "m \<noteq> n" and "fl = ''schema.json'' \<or> fl = ''indexes.json''"
  shows "map_of (backup_objects stamp m cm) (layout_key stamp n fl) = None"
proof -
  have "layout_key stamp n fl \<noteq> layout_key stamp m ''schema.json''"
    "layout_key stamp n fl \<noteq> layout_key stamp m ''indexes.json''"
    using assms by auto
  then show ?thesis
    by (simp add: backup_objects_def)
qed

lemma map_of_new_objects_none:
  assumes "n \<notin> fst ` set M" and "fl = ''schema.json'' \<or> fl = ''indexes.json''"
  shows "map_of (concat (map (\<lambda>(m, cm). backup_objects stamp m cm) M)) (layout_key stamp n fl) = None"
  using assms(1)
proof (induction M)
  case Nil
  then show ?case by simp
next
  case (Cons p M)
  obtain m cm where p: "p = (m, cm)" by (cases p)
  have "m \<noteq> n" and "n \<notin> fst ` set M"
    using Cons.prems by (auto simp: p)
  then show ?case
    using Cons.IH map_of_backup_objects_other [OF _ assms(2), of m n stamp cm]
    by (simp add: p map_add_def)
qed

lemma map_of_new_objects:
  assumes "distinct (map fst M)" and "(n, col) \<in> set M"
    and "fl = ''schema.json'' \<or> fl = ''indexes.json''"
  shows "map_of (concat (map (\<lambda>(m, cm). backup_objects stamp m cm) M)) (layout_key stamp n fl)
           = map_of (backup_objects stamp n col) (layout_key stamp n fl)"
  using assms(1,2)
proof (induction M)
  case Nil
  then show ?case by simp
next
  case (Cons p M)
  obtain m cm where p: "p = (m, cm)" by (cases p)
  show ?case
  proof (cases "m = n")
    case True
    then have notin: "n \<notin> fst ` set M"
      using Cons.prems(1) by (simp add: p)
    then have "cm = col"
      using Cons.prems(2) True by (auto simp: p rev_image_eqI)
    then show ?thesis
      using True map_of_new_objects_none [OF notin assms(3), of stamp]
      by (simp add: p map_add_def split: option.splits)
  next
    case False
    then have "(n, col) \<in> set M" and "distinct (map fst M)"
      using Cons.prems by (auto simp: p)
    then show ?thesis
      using Cons.IH False map_of_backup_objects_other [OF False assms(3), of stamp cm]
      by (simp add: p map_add_def)
  qed
qed

lemma length_new_objects:
  "length (concat (map (\<lambda>(m, cm). backup_objects stamp m cm) M)) \<le> 2 * length M"
  by (induction M) (auto simp: backup_objects_def)

lemma new_objects_prefix:
  "list_all (\<lambda>key. startswith key (''backup-'' @ stamp @ ''/''))
     (map fst (concat (map (\<lambda>(m, cm). backup_objects stamp m cm) M)))"
proof (induction M)
  case Nil
  then show ?case by simp
next
  case (Cons p M)
  obtain m cm where p: "p = (m, cm)" by (cases p)
  have "list_all (\<lambda>key. startswith key (''backup-'' @ stamp @ ''/'')) (map fst (backup_objects stamp m cm))"
    using layout_key_startswith [of stamp m] by (simp add: backup_objects_def)
  then show ?case
    using Cons.IH by (simp add: p)
qed

lemma find_path_backup_objects:
  "find_path ''/schema.json'' (sort (map fst (backup_objects stamp n col)))
     = Some (layout_key stamp n ''schema.json'')"
  "find_path ''/indexes.json'' (sort (map fst (backup_objects stamp n col)))
     = (if collect_indexes col = [] then None else Some (layout_key stamp n ''indexes.json''))"
proof -
  show "find_path ''/schema.json'' (sort (map fst (backup_objects stamp n col)))
     = Some (layout_key stamp n ''schema.json'')"
    by (rule find_path_unique) (auto simp: backup_objects_def layout_key_endswith)
  show "find_path ''/indexes.json'' (sort (map fst (backup_objects stamp n col)))
     = (if collect_indexes col = [] then None else Some (layout_key stamp n ''indexes.json''))"
  proof (cases "collect_indexes col = []")
    case True
    have "find_path ''/indexes.json'' (sort (map fst (backup_objects stamp n col))) = None"
      by (rule find_path_none) (simp add: backup_objects_def True layout_key_endswith)
    then show ?thesis using True by simp
  next
    case False
    have "find_path ''/indexes.json'' (sort (map fst (backup_objects stamp n col)))
        = Some (layout_key stamp n ''indexes.json'')"
      by (rule find_path_unique) (auto simp: backup_objects_def False layout_key_endswith)
    then show ?thesis using False by simp
  qed
qed

subsection \<open>The backup as the restore sees it\<close>

lemma manifest_after_backup:
  assumes "s3_exists c" and "connects ok"
    and "distinct (list_collections c)" and "list_all slash_free (list_collections c)"
    and "length (list_collections c) \<le> 500"
    and "\<not> list_ex (\<lambda>key. startswith key (''backup-'' @ stamp @ ''/'')) (map fst (s3_objects c))"
    and "slash_free stamp"
  shows "map_of (manifest (''backup-'' @ stamp) (snd (backup_py stamp ok c))) n
           = (case map_of (milvus c) n of
                None \<Rightarrow> None
              | Some col \<Rightarrow> Some (sort (map fst (backup_objects stamp n col))))"
proof -
  let ?c' = "snd (backup_py stamp ok c)"
  let ?new = "concat (map (\<lambda>(n, col). backup_objects stamp n col) (milvus c))"
  have b: "s3_exists ?c'" "s3_objects ?c' = s3_objects c @ ?new"
    using backup_py_objects [OF assms(1,2,3,6)] by simp_all
  have len: "length ?new \<le> 1000"
    using length_new_objects [of stamp "milvus c"] assms(5) by (simp add: list_collections_def)
  have old: "\<not> list_ex (\<lambda>key. startswith key ((''backup-'' @ stamp) @ ''/'')) (map fst (s3_objects c))"
    using assms(6) by simp
  have new: "list_all (\<lambda>key. startswith key ((''backup-'' @ stamp) @ ''/'')) (map fst ?new)"
    using new_objects_prefix [of stamp "milvus c"] by simp
  have l: "backup_listing (''backup-'' @ stamp) ?c' = sort (map fst ?new)"
    using b old new len by (rule backup_listing_fresh)
  have d: "distinct (map fst (milvus c))" and s: "list_all slash_free (map fst (milvus c))"
    using assms(3,4) by (simp_all add: list_collections_def)
  have f: "filter (filed_under n) (sort (map fst ?new))
             = sort (case map_of (milvus c) n of None \<Rightarrow> []
                     | Some col \<Rightarrow> map fst (backup_objects stamp n col))"
    by (simp only: filter_sort filter_new_keys [OF d s assms(7)])
  show ?thesis
    by (simp only: map_of_manifest l f) (simp add: backup_objects_def split: option.splits)
qed

text \<open>
  C9, amended. The time stamp is the calendar time \<^verbatim>\<open>date +%Y%m%d%H%M%S\<close> prints. When
  the backup job connects, the bucket exists and holds nothing under the prefix of that time
  stamp, and the database has at most 500 collections, with names without a slash: the
  job adds to the bucket, for every collection in turn, its schema document under
  \<^verbatim>\<open>backup-<timestamp>/<name>/schema.json\<close> and, if the collection has an index, its index
  document under \<^verbatim>\<open>backup-<timestamp>/<name>/indexes.json\<close>, and nothing else. The restore
  pointed at \<^verbatim>\<open>backup-<timestamp>\<close> then finds exactly the names of the collections; for
  each it holds the collection's keys, picks the key of the schema document as its
  \<^verbatim>\<open>schema.json\<close> and downloads that document, and picks the key of the index document as
  its \<^verbatim>\<open>indexes.json\<close> if there is one, so that the indexes it is to create are those the
  backup recorded.
\<close>

theorem backup_layout:
  assumes "s3_exists c" and "connects ok"
    and "distinct (list_collections c)" and "list_all slash_free (list_collections c)"
    and "length (list_collections c) \<le> 500"
    and "\<not> list_ex (\<lambda>key. startswith key (''backup-'' @ date_fmt clk @ ''/'')) (map fst (s3_objects c))"
  shows "s3_objects (snd (backup_py (date_fmt clk) ok c))
           = s3_objects c @ concat (map (\<lambda>(n, col). backup_objects (date_fmt clk) n col) (milvus c))
       \<and> set (map fst (manifest (''backup-'' @ date_fmt clk) (snd (backup_py (date_fmt clk) ok c))))
           = set (list_collections c)
       \<and> ((n, col) \<in> set (milvus c) \<longrightarrow>
            map_of (manifest (''backup-'' @ date_fmt clk) (snd (backup_py (date_fmt clk) ok c))) n
              = Some (sort (map fst (backup_objects (date_fmt clk) n col)))
          \<and> find_path ''/schema.json'' (sort (map fst (backup_objects (date_fmt clk) n col)))
              = Some (layout_key (date_fmt clk) n ''schema.json'')
          \<and> download_file (layout_key (date_fmt clk) n ''schema.json'')
                (snd (backup_py (date_fmt clk) ok c))
              = Some (SchemaDoc (backup_doc n (col_schema col)))
          \<and> find_path ''/indexes.json'' (sort (map fst (backup_objects (date_fmt clk) n col)))
              = (if collect_indexes col = [] then None
                 else Some (layout_key (date_fmt clk) n ''indexes.json''))
          \<and> restored_indexes (sort (map fst (backup_objects (date_fmt clk) n col)))
                (snd (backup_py (date_fmt clk) ok c))
              = collect_indexes col)"
proof -
  let ?ts = "date_fmt clk"
  let ?c' = "snd (backup_py ?ts ok c)"
  let ?new = "concat (map (\<lambda>(n, col). backup_objects ?ts n col) (milvus c))"
  note m = manifest_after_backup [OF assms slash_free_date_fmt]
  have b: "s3_objects ?c' = s3_objects c @ ?new"
    using backup_py_objects [OF assms(1,2,3,6)] by simp
  have d: "distinct (map fst (milvus c))"
    using assms(3) by (simp add: list_collections_def)
  have names: "set (map fst (manifest (''backup-'' @ ?ts) ?c')) = set (list_collections c)"
  proof -
    have "fst ` set (manifest (''backup-'' @ ?ts) ?c') = dom (map_of (manifest (''backup-'' @ ?ts) ?c'))"
      by (simp add: dom_map_of_conv_image_fst)
    also have "\<dots> = dom (map_of (milvus c))"
    proof (rule set_eqI)
      fix x
      show "x \<in> dom (map_of (manifest (''backup-'' @ ?ts) ?c')) \<longleftrightarrow> x \<in> dom (map_of (milvus c))"
        using m [of x] by (simp add: dom_def split: option.splits)
    qed
    also have "\<dots> = fst ` set (milvus c)"
      by (simp add: dom_map_of_conv_image_fst)
    finally show ?thesis
      by (simp add: list_collections_def)
  qed
  have one: "map_of (manifest (''backup-'' @ ?ts) ?c') n = Some (sort (map fst (backup_objects ?ts n col)))
          \<and> find_path ''/schema.json'' (sort (map fst (backup_objects ?ts n col)))
              = Some (layout_key ?ts n ''schema.json'')
          \<and> download_file (layout_key ?ts n ''schema.json'') ?c'
              = Some (SchemaDoc (backup_doc n (col_schema col)))
          \<and> find_path ''/indexes.json'' (sort (map fst (backup_objects ?ts n col)))
              = (if collect_indexes col = [] then None else Some (layout_key ?ts n ''indexes.json''))
          \<and> restored_indexes (sort (map fst (backup_objects ?ts n col))) ?c' = collect_indexes col"
    if mem: "(n, col) \<in> set (milvus c)"
  proof -
    have "map_of (milvus c) n = Some col"
      using d mem by simp
    then have 1: "map_of (manifest (''backup-'' @ ?ts) ?c') n = Some (sort (map fst (backup_objects ?ts n col)))"
      using m [of n] by simp
    have fresh: "map_of (s3_objects c) (layout_key ?ts n fl) = None" for fl
    proof -
      have "layout_key ?ts n fl \<notin> fst ` set (s3_objects c)"
        using assms(6) layout_key_startswith [of ?ts n fl] by (auto simp: list_ex_iff)
      then show ?thesis
        by (simp add: map_of_eq_None_iff)
    qed
    have dl: "download_file (layout_key ?ts n fl) ?c' = map_of (backup_objects ?ts n col) (layout_key ?ts n fl)"
      if "fl = ''schema.json'' \<or> fl = ''indexes.json''" for fl
      using map_of_new_objects [OF d mem that, of ?ts] fresh [of fl]
      by (simp add: download_file_def b map_add_def split: option.splits)
    have 3: "download_file (layout_key ?ts n ''schema.json'') ?c'
              = Some (SchemaDoc (backup_doc n (col_schema col)))"
      by (simp add: dl backup_objects_def)
    have 4: "download_file (layout_key ?ts n ''indexes.json'') ?c'
              = (if collect_indexes col = [] then None else Some (IndexDoc (collect_indexes col)))"
      by (simp add: dl backup_objects_def)
    have 5: "restored_indexes (sort (map fst (backup_objects ?ts n col))) ?c' = collect_indexes col"
      by (simp add: restored_indexes_def find_path_backup_objects 4)
    show ?thesis
      using 1 3 5 by (simp add: find_path_backup_objects)
  qed
  show ?thesis
    using b names one by blast
qed

theorem backup_layout_witness:
  "s3_exists notes_db \<and> connects (\<lambda>i. True)
   \<and> distinct (list_collections notes_db) \<and> list_all slash_free (list_collections notes_db)
   \<and> length (list_collections notes_db) \<le> 500
   \<and> \<not> list_ex (\<lambda>key. startswith key (''backup-'' @ date_fmt clock0 @ ''/'')) (map fst (s3_objects notes_db))
   \<and> (''notes'', \<lparr>col_schema = notes_schema, col_indexes = [notes_index]\<rparr>) \<in> set (milvus notes_db)
   \<and> s3_objects (snd (backup_py (date_fmt clock0) (\<lambda>i. True) notes_db))
       = [(''backup-20240101120000/notes/schema.json'', SchemaDoc (backup_doc ''notes'' notes_schema)),
          (''backup-20240101120000/notes/indexes.json'', IndexDoc [notes_index])]
   \<and> map_of (manifest (''backup-'' @ date_fmt clock0) (snd (backup_py (date_fmt clock0) (\<lambda>i. True) notes_db)))
         ''notes''
       = Some [''backup-20240101120000/notes/indexes.json'', ''backup-20240101120000/notes/schema.json'']
   \<and> restored_indexes
         [''backup-20240101120000/notes/indexes.json'', ''backup-20240101120000/notes/schema.json'']
         (snd (backup_py (date_fmt clock0) (\<lambda>i. True) notes_db))
       = [notes_index]"
proof -
  let ?col = "\<lparr>col_schema = notes_schema, col_indexes = [notes_index]\<rparr>"
  have h1: "s3_exists notes_db"
    by (simp add: notes_db_def)
  have h2: "connects (\<lambda>i. True)"
    unfolding connects_iff by (rule exI [of _ 0]) simp
  have h3: "distinct (list_collections notes_db)"
    by (simp add: notes_db_def list_collections_def)
  have h4: "list_all slash_free (list_collections notes_db)"
    by (simp add: notes_db_def list_collections_def slash_free_def)
  have h5: "length (list_collections notes_db) \<le> 500"
    by (simp add: notes_db_def list_collections_def)
  have h6: "\<not> list_ex (\<lambda>key. startswith key (''backup-'' @ date_fmt clock0 @ ''/'')) (map fst (s3_objects notes_db))"
    by (simp add: notes_db_def)
  have h7: "(''notes'', ?col) \<in> set (milvus notes_db)"
    by (simp add: notes_db_def)
  have ts: "date_fmt clock0 = ''20240101120000''"
    by (simp add: date_fmt_def clock0_def zpad_def dec.simps digit_def)
  have ix: "collect_indexes ?col = [notes_index]"
    by code_simp
  have objs: "backup_objects ''20240101120000'' ''notes'' ?col
       = [(''backup-20240101120000/notes/schema.json'', SchemaDoc (backup_doc ''notes'' notes_schema)),
          (''backup-20240101120000/notes/indexes.json'', IndexDoc [notes_index])]"
    by (simp add: backup_objects_def ix layout_key_def)
  have srt: "sort [''backup-20240101120000/notes/schema.json'', ''backup-20240101120000/notes/indexes.json'']
       = [''backup-20240101120000/notes/indexes.json'', ''backup-20240101120000/notes/schema.json'']"
    by code_simp
  have m: "milvus notes_db = [(''notes'', ?col)]" "s3_objects notes_db = []"
    by (simp_all add: notes_db_def)
  show ?thesis
    using backup_layout [OF h1 h2 h3 h4 h5 h6, of "''notes''" ?col] h1 h2 h3 h4 h5 h6 h7
    by (simp add: ts objs srt ix m)
qed

text \<open>
  C9 as stated fails. The time stamp in the keys is the calendar time, fourteen digits, not
  the seconds since the epoch: at noon of 1 January 2024 the schema document of \<^verbatim>\<open>docs\<close>
  goes under \<^verbatim>\<open>backup-20240101120000\<close>, and nothing is under \<^verbatim>\<open>backup-1704110400\<close>. And
  the backup does not write a schema document for every collection when the bucket does
  not exist (each upload fails, the handler of the round prints the error, and the job
  still ends with exit code 0) or when the job cannot connect. And the restore lists one
  page of at most 1000 keys: of 1001 schema documents under a prefix it sees 1000.
\<close>

theorem backup_layout_counterexample:
  "map fst (s3_objects (snd (backup_py (date_fmt clock0) (\<lambda>i. True) docs_cluster)))
     = [''backup-20240101120000/docs/schema.json'']
   \<and> unix_key clock0 ''docs'' ''schema.json'' = ''backup-1704110400/docs/schema.json''
   \<and> list_objects_v2 ''backup-1704110400/'' (snd (backup_py (date_fmt clock0) (\<lambda>i. True) docs_cluster))
       = Some []
   \<and> list_collections (docs_cluster\<lparr>s3_exists := False\<rparr>) = [''docs'']
   \<and> backup_py ''20240101120000'' (\<lambda>i. True) (docs_cluster\<lparr>s3_exists := False\<rparr>)
       = (0, docs_cluster
               \<lparr>s3_exists := False,
                logs := [''Connected to Milvus'', ''Collections to backup: ['' @ [CHR 0x27] @ ''docs'' @ [CHR 0x27] @ '']'',
                         ''Backing up collection: docs'', ''Error backing up docs: NoSuchBucket'',
                         ''Backup completed at: backup-20240101120000/'']\<rparr>)
   \<and> fst (backup_py ''20240101120000'' (\<lambda>i. False) docs_cluster) = 1
   \<and> s3_objects (snd (backup_py ''20240101120000'' (\<lambda>i. False) docs_cluster)) = []
   \<and> length (s3_objects big_backup) = 1001
   \<and> list_all (\<lambda>key. startswith key ''backup-20240101120000/'') (map fst (s3_objects big_backup))
   \<and> length (backup_listing ''backup-20240101120000'' big_backup) = 1000"
proof -
  have g: "length (s3_objects big_backup) = 1001"
    by (simp add: big_backup_def)
  have h: "list_all (\<lambda>key. startswith key ''backup-20240101120000/'') (map fst (s3_objects big_backup))"
    by (simp add: big_backup_def list_all_iff startswith_def)
  have "filter (\<lambda>key. startswith key ''backup-20240101120000/'') (map fst (s3_objects big_backup))
      = map fst (s3_objects big_backup)"
    using h by (simp only: filter_id_conv list_all_iff)
  then have "backup_listing ''backup-20240101120000'' big_backup
      = take 1000 (sort (map fst (s3_objects big_backup)))"
    by (simp add: backup_listing_def list_objects_v2_def big_backup_def)
  then have i: "length (backup_listing ''backup-20240101120000'' big_backup) = 1000"
    using g by simp
  have ts: "date_fmt clock0 = ''20240101120000''"
    by (simp add: date_fmt_def clock0_def zpad_def dec.simps digit_def)
  have u: "unix_key clock0 ''docs'' ''schema.json'' = ''backup-1704110400/docs/schema.json''"
    by (simp add: unix_key_def layout_key_def clock0_def dec.simps digit_def)
  have a: "map fst (s3_objects (snd (backup_py ''20240101120000'' (\<lambda>i. True) docs_cluster)))
     = [''backup-20240101120000/docs/schema.json'']"
    by code_simp
  have b: "list_objects_v2 ''backup-1704110400/'' (snd (backup_py ''20240101120000'' (\<lambda>i. True) docs_cluster))
       = Some []"
    by code_simp
  have c: "list_collections (docs_cluster\<lparr>s3_exists := False\<rparr>) = [''docs'']"
    by code_simp
  have d: "backup_py ''20240101120000'' (\<lambda>i. True) (docs_cluster\<lparr>s3_exists := False\<rparr>)
       = (0, docs_cluster
               \<lparr>s3_exists := False,
                logs := [''Connected to Milvus'', ''Collections to backup: ['' @ [CHR 0x27] @ ''docs'' @ [CHR 0x27] @ '']'',
                         ''Backing up collection: docs'', ''Error backing up docs: NoSuchBucket'',
                         ''Backup completed at: backup-20240101120000/'']\<rparr>)"
    by code_simp
  have e: "fst (backup_py ''20240101120000'' (\<lambda>i. False) docs_cluster) = 1"
    by code_simp
  have f: "s3_objects (snd (backup_py ''20240101120000'' (\<lambda>i. False) docs_cluster)) = []"
    by code_simp
  show ?thesis
    using a b c d e f g h i u by (simp only: ts)
qed

end
